theory Spec2Isabelle
  imports Complex_Main "HOL-Library.Multiset"
begin

section \<open>Double-precision values\<close>

text \<open>
  The CUDA kernel computes with C \<^verbatim>\<open>double\<close>, the sampler with numpy's \<^verbatim>\<open>float64\<close>.
  A value is a finite real, one of the two infinities, or NaN. Arithmetic on finite
  values is exact: rounding, overflow and underflow of finite results are outside this
  model, except for the exponential, which overflows and underflows as described below,
  and for the periodic wrap of the kernel, which is given a second time with the rounding
  of each operation. Zero carries no sign; a nonzero finite value divided by zero gives the infinity
  with the sign of the numerator, as IEEE 754 does for the divisor \<^verbatim>\<open>+0.0\<close>.
\<close>

datatype double = Fin real | PInf | NInf | NaN

instantiation double :: "{comm_monoid_add, uminus, minus, times, inverse, ord}"
begin

definition zero_double :: double where
  "zero_double = Fin 0"

fun plus_double :: "double \<Rightarrow> double \<Rightarrow> double" where
  "plus_double NaN y = NaN"
| "plus_double x NaN = NaN"
| "plus_double (Fin a) (Fin b) = Fin (a + b)"
| "plus_double PInf NInf = NaN"
| "plus_double NInf PInf = NaN"
| "plus_double PInf y = PInf"
| "plus_double x PInf = PInf"
| "plus_double NInf y = NInf"
| "plus_double x NInf = NInf"

fun uminus_double :: "double \<Rightarrow> double" where
  "uminus_double (Fin a) = Fin (- a)"
| "uminus_double PInf = NInf"
| "uminus_double NInf = PInf"
| "uminus_double NaN = NaN"

definition minus_double :: "double \<Rightarrow> double \<Rightarrow> double" where
  "minus_double x y = x + (- y)"

fun times_double :: "double \<Rightarrow> double \<Rightarrow> double" where
  "times_double NaN y = NaN"
| "times_double x NaN = NaN"
| "times_double (Fin a) (Fin b) = Fin (a * b)"
| "times_double (Fin a) PInf = (if 0 < a then PInf else if a < 0 then NInf else NaN)"
| "times_double (Fin a) NInf = (if 0 < a then NInf else if a < 0 then PInf else NaN)"
| "times_double PInf (Fin b) = (if 0 < b then PInf else if b < 0 then NInf else NaN)"
| "times_double NInf (Fin b) = (if 0 < b then NInf else if b < 0 then PInf else NaN)"
| "times_double PInf PInf = PInf"
| "times_double PInf NInf = NInf"
| "times_double NInf PInf = NInf"
| "times_double NInf NInf = PInf"

fun divide_double :: "double \<Rightarrow> double \<Rightarrow> double" where
  "divide_double NaN y = NaN"
| "divide_double x NaN = NaN"
| "divide_double (Fin a) (Fin b) =
     (if b \<noteq> 0 then Fin (a / b)
      else if 0 < a then PInf else if a < 0 then NInf else NaN)"
| "divide_double (Fin a) PInf = Fin 0"
| "divide_double (Fin a) NInf = Fin 0"
| "divide_double PInf (Fin b) = (if 0 \<le> b then PInf else NInf)"
| "divide_double NInf (Fin b) = (if 0 \<le> b then NInf else PInf)"
| "divide_double PInf PInf = NaN"
| "divide_double PInf NInf = NaN"
| "divide_double NInf PInf = NaN"
| "divide_double NInf NInf = NaN"

definition inverse_double :: "double \<Rightarrow> double" where
  "inverse_double (x::double) = divide (Fin 1) x"

text \<open>Comparisons: every comparison with NaN is false.\<close>

fun less_double :: "double \<Rightarrow> double \<Rightarrow> bool" where
  "less_double NaN y = False"
| "less_double x NaN = False"
| "less_double (Fin a) (Fin b) = (a < b)"
| "less_double x NInf = False"
| "less_double PInf y = False"
| "less_double NInf y = True"
| "less_double x PInf = True"

fun less_eq_double :: "double \<Rightarrow> double \<Rightarrow> bool" where
  "less_eq_double NaN y = False"
| "less_eq_double x NaN = False"
| "less_eq_double (Fin a) (Fin b) = (a \<le> b)"
| "less_eq_double NInf y = True"
| "less_eq_double x PInf = True"
| "less_eq_double x NInf = False"
| "less_eq_double PInf y = False"

instance
proof
  fix u v w :: double
  show "0 + u = u"
    unfolding zero_double_def by (cases u; simp)
  show "u + v = v + u"
    by (cases u; cases v; simp)
  show "u + v + w = u + (v + w)"
    by (cases u; cases v; cases w; simp)
qed

end

text \<open>
  \<^verbatim>\<open>exp\<close> and \<^verbatim>\<open>sqrt\<close> of the C math library (\<^verbatim>\<open>np.exp\<close> in the sampler). The
  exponential leaves the range of \<^verbatim>\<open>double\<close>: above \<^verbatim>\<open>709.782712893384\<close> (the logarithm
  of the largest double) it overflows to \<^verbatim>\<open>+inf\<close>, and below
  \<^verbatim>\<open>-745.1332191019412\<close> (the logarithm of \<^verbatim>\<open>2^-1075\<close>, half the smallest positive
  double) it underflows to zero, so that \<^verbatim>\<open>np.exp(-1000)\<close> is \<^verbatim>\<open>0.0\<close>. In between the value
  is positive and is taken exactly.
\<close>

fun d_exp :: "double \<Rightarrow> double" where
  "d_exp (Fin a) =
     (if 709.782712893384 < a then PInf
      else if a < - 745.1332191019412 then Fin 0
      else Fin (exp a))"
| "d_exp PInf = PInf"
| "d_exp NInf = Fin 0"
| "d_exp NaN = NaN"

fun d_sqrt :: "double \<Rightarrow> double" where
  "d_sqrt (Fin a) = (if 0 \<le> a then Fin (sqrt a) else NaN)"
| "d_sqrt PInf = PInf"
| "d_sqrt NInf = NaN"
| "d_sqrt NaN = NaN"

text \<open>
  The conversion \<^verbatim>\<open>int(x)\<close> of a double to the 32-bit \<^verbatim>\<open>int\<close> of the kernel: it
  truncates towards zero; out of range the device instruction saturates, and NaN
  converts to 0.
\<close>

definition INT_MAX :: int where
  "INT_MAX = 2147483647"

definition INT_MIN :: int where
  "INT_MIN = - 2147483648"

definition trunc :: "real \<Rightarrow> int" where
  "trunc a = (if 0 \<le> a then \<lfloor>a\<rfloor> else \<lceil>a\<rceil>)"

fun double2int :: "double \<Rightarrow> int" where
  "double2int (Fin a) =
     (if INT_MAX < trunc a then INT_MAX
      else if trunc a < INT_MIN then INT_MIN
      else trunc a)"
| "double2int PInf = INT_MAX"
| "double2int NInf = INT_MIN"
| "double2int NaN = 0"

definition int2double :: "int \<Rightarrow> double" where
  "int2double n = Fin (of_int n)"

text \<open>\<^verbatim>\<open>int(b)\<close> of a C boolean.\<close>

definition bool2int :: "bool \<Rightarrow> int" where
  "bool2int b = (if b then 1 else 0)"

definition is_finite :: "double \<Rightarrow> bool" where
  "is_finite x = (case x of Fin a \<Rightarrow> True | _ \<Rightarrow> False)"

text \<open>
  Rounding to binary64, to nearest with ties to even. A double is an integer multiple
  \<open>n * 2^(e - 52)\<close> of the spacing of its binade, with \<open>|n| \<le> 2^53\<close>, and the exponent
  \<open>e\<close> is at least \<open>-1022\<close>: below \<open>2^-1022\<close> the spacing stays \<open>2^-1074\<close> (gradual
  underflow). \<open>round64 x\<close> rounds with an unbounded exponent above; \<open>rnd\<close> is the rounding
  of the result of a double operation, where a value that rounds to \<open>2^1024\<close> or more
  overflows to the infinity of its sign.
\<close>

definition pow2 :: "int \<Rightarrow> real" where
  "pow2 e = (if 0 \<le> e then 2 ^ nat e else 1 / 2 ^ nat (- e))"

definition exponent64 :: "real \<Rightarrow> int" where
  "exponent64 x = max \<lfloor>log 2 \<bar>x\<bar>\<rfloor> (- 1022)"

definition ulp64 :: "real \<Rightarrow> real" where
  "ulp64 x = pow2 (exponent64 x - 52)"

definition round_even :: "real \<Rightarrow> int" where
  "round_even y =
     (if y - of_int \<lfloor>y\<rfloor> < 1 / 2 then \<lfloor>y\<rfloor>
      else if 1 / 2 < y - of_int \<lfloor>y\<rfloor> then \<lfloor>y\<rfloor> + 1
      else if even \<lfloor>y\<rfloor> then \<lfloor>y\<rfloor> else \<lfloor>y\<rfloor> + 1)"

definition round64 :: "real \<Rightarrow> real" where
  "round64 x = of_int (round_even (x / ulp64 x)) * ulp64 x"

definition rnd :: "double \<Rightarrow> double" where
  "rnd x =
     (case x of
        Fin a \<Rightarrow>
          if 2 ^ 1024 \<le> \<bar>round64 a\<bar> then (if 0 < a then PInf else NInf)
          else Fin (round64 a)
      | _ \<Rightarrow> x)"


section \<open>The energy kernel\<close>

text \<open>
  The translations follow \<^verbatim>\<open>many_body_potential_pycuda.py\<close>. A device function that
  updates \<^verbatim>\<open>double &u\<close> takes \<open>u\<close> and returns the new value.
\<close>

definition one_blob_potential ::
  "double \<Rightarrow> double \<Rightarrow> double \<Rightarrow> double \<Rightarrow> double \<Rightarrow> double \<Rightarrow> double \<Rightarrow> double \<Rightarrow> double" where
  "one_blob_potential u rx ry rz blob_radius debye_length_wall eps_wall weight =
     (let u = u + weight * rz;
          u = u + eps_wall * blob_radius
                    * d_exp (- (rz - blob_radius) / debye_length_wall) / (rz - blob_radius)
      in u)"

definition blob_blob_potential ::
  "double \<Rightarrow> double \<Rightarrow> double \<Rightarrow> double \<Rightarrow> nat \<Rightarrow> nat \<Rightarrow> double \<Rightarrow> double \<Rightarrow> double \<Rightarrow> double" where
  "blob_blob_potential u rx ry rz i j debye_length eps blob_radius =
     (if i \<noteq> j then
        let r = d_sqrt (rx * rx + ry * ry + rz * rz)
        in u + eps * d_exp (- r / debye_length) / r
      else u)"

text \<open>
  The periodic wrap of one displacement component, written twice in the kernel (for x
  and for y): \<^verbatim>\<open>rx - int(rx / Lx + 0.5 * (int(rx>0) - int(rx<0))) * Lx\<close>.
\<close>

definition minimum_image :: "double \<Rightarrow> double \<Rightarrow> double" where
  "minimum_image rx Lx =
     rx - int2double (double2int
            (rx / Lx + Fin 0.5 * int2double (bool2int (0 < rx) - bool2int (rx < 0)))) * Lx"

text \<open>
  The same expression with the rounding of the operations: the quotient, the sum, the
  product and the difference are each rounded to double. The product \<^verbatim>\<open>0.5 * (...)\<close> and
  the conversions between \<^verbatim>\<open>int\<close> and \<^verbatim>\<open>double\<close> are exact. By default nvcc contracts
  a product and a difference into one fused multiply-add, which rounds once; whether it
  does here is the choice of the compiler, and \<open>fused\<close> says which code it has produced.
\<close>

definition minimum_image_binary64 :: "bool \<Rightarrow> double \<Rightarrow> double \<Rightarrow> double" where
  "minimum_image_binary64 fused rx Lx =
     (let k = double2int
            (rnd (rnd (rx / Lx)
                  + Fin 0.5 * int2double (bool2int (0 < rx) - bool2int (rx < 0))));
          p = int2double k * Lx
      in rnd (rx - (if fused then p else rnd p)))"

text \<open>
  The body of the loop over \<open>j\<close>, for one \<open>j\<close>, in two parts: the vector between
  the particles \<open>i\<close> and \<open>j\<close>, and the call of \<^verbatim>\<open>blob_blob_potential\<close> on it.
\<close>

definition pair_displacement :: "double list \<Rightarrow> double \<Rightarrow> double \<Rightarrow> nat \<Rightarrow> nat \<Rightarrow> double \<times> double \<times> double" where
  "pair_displacement x Lx Ly i j =
     (let ioffset = i * 3;
          joffset = j * 3;
          rx = x ! ioffset - x ! joffset;
          ry = x ! (ioffset + 1) - x ! (joffset + 1);
          rz = x ! (ioffset + 2) - x ! (joffset + 2);
          rx = (if 0 < Lx then minimum_image rx Lx else rx);
          ry = (if 0 < Ly then minimum_image ry Ly else ry)
      in (rx, ry, rz))"

definition pair_step ::
  "double list \<Rightarrow> double \<Rightarrow> double \<Rightarrow> double \<Rightarrow> double \<Rightarrow> double \<Rightarrow> nat \<Rightarrow> nat \<Rightarrow> double \<Rightarrow> double" where
  "pair_step x Lx Ly debye_length eps blob_radius i j u =
     (case pair_displacement x Lx Ly i j of
        (rx, ry, rz) \<Rightarrow> blob_blob_potential u rx ry rz i j debye_length eps blob_radius)"

text \<open>\<^verbatim>\<open>for(int j=i+1; j<n_blobs; j++)\<close>, entered with \<open>j = i + 1\<close>.\<close>

function pair_loop ::
  "double list \<Rightarrow> nat \<Rightarrow> double \<Rightarrow> double \<Rightarrow> double \<Rightarrow> double \<Rightarrow> double \<Rightarrow> nat \<Rightarrow> nat \<Rightarrow> double \<Rightarrow> double" where
  "pair_loop x n_blobs Lx Ly debye_length eps blob_radius i j u =
     (if j < n_blobs
      then pair_loop x n_blobs Lx Ly debye_length eps blob_radius i (j + 1)
             (pair_step x Lx Ly debye_length eps blob_radius i j u)
      else u)"
  by pat_completeness auto
termination
  by (relation "measure (\<lambda>(x, n_blobs, Lx, Ly, debye_length, eps, blob_radius, i, j, u). n_blobs - j)")
     auto

declare pair_loop.simps [simp del]

text \<open>The value of the local \<open>u\<close> of thread \<open>i\<close> when it is saved, for \<open>i < n_blobs\<close>.\<close>

definition blob_u ::
  "double list \<Rightarrow> nat \<Rightarrow> double \<Rightarrow> double \<Rightarrow> double \<Rightarrow> double \<Rightarrow> double \<Rightarrow> double \<Rightarrow> double \<Rightarrow> double
     \<Rightarrow> nat \<Rightarrow> double" where
  "blob_u x n_blobs Lx Ly debye_length_wall eps_wall debye_length eps weight blob_radius i =
     (let u = Fin 0;
          ioffset = i * 3
      in if blob_radius < x ! (ioffset + 2) then
           let u = one_blob_potential u (x ! ioffset) (x ! (ioffset + 1)) (x ! (ioffset + 2))
                     blob_radius debye_length_wall eps_wall weight
           in pair_loop x n_blobs Lx Ly debye_length eps blob_radius i (i + 1) u
         else Fin 100000 * (- (x ! (ioffset + 2) - blob_radius) + Fin 1))"

text \<open>
  One thread of the kernel, with thread index \<open>i\<close>; it returns the output array
  \<open>total_U\<close> as the thread leaves it.
\<close>

definition potential_from_position_blobs ::
  "double list \<Rightarrow> double list \<Rightarrow> nat \<Rightarrow> double \<Rightarrow> double \<Rightarrow> double \<Rightarrow> double \<Rightarrow> double \<Rightarrow> double
     \<Rightarrow> double \<Rightarrow> double \<Rightarrow> nat \<Rightarrow> double list" where
  "potential_from_position_blobs x total_U n_blobs Lx Ly debye_length_wall eps_wall
       debye_length eps weight blob_radius i =
     (if i \<ge> n_blobs then total_U
      else total_U[i := blob_u x n_blobs Lx Ly debye_length_wall eps_wall debye_length eps
                          weight blob_radius i])"

text \<open>Integer division of Python 2 on integers rounds down, as \<open>div\<close> on \<open>int\<close> does.\<close>

definition set_number_of_threads_and_blocks :: "int \<Rightarrow> int \<times> int" where
  "set_number_of_threads_and_blocks num_elements =
     (let threads_per_block = 512;
          threads_per_block =
            (if num_elements div threads_per_block < 512 then 256 else threads_per_block);
          threads_per_block =
            (if num_elements div threads_per_block < 256 then 128 else threads_per_block);
          threads_per_block =
            (if num_elements div threads_per_block < 128 then 64 else threads_per_block);
          threads_per_block =
            (if num_elements div threads_per_block < 128 then 32 else threads_per_block);
          num_blocks = (num_elements - 1) div threads_per_block + 1
      in (threads_per_block, num_blocks))"

type_synonym vec3 = "double \<times> double \<times> double"

text \<open>\<^verbatim>\<open>np.reshape(r_vectors, number_of_blobs * 3)\<close> of an array of shape (N, 3).\<close>

definition reshape :: "vec3 list \<Rightarrow> double list" where
  "reshape r_vectors = concat (map (\<lambda>(a, b, c). [a, b, c]) r_vectors)"

text \<open>
  The kernel launch on a grid of \<open>num_blocks\<close> blocks of \<open>threads_per_block\<close> threads:
  one thread for every index below their product. The threads read \<open>x\<close> only and
  write distinct slots, so they are run here in the order of their index.
\<close>

definition launch ::
  "nat \<Rightarrow> double list \<Rightarrow> double list \<Rightarrow> nat \<Rightarrow> double \<Rightarrow> double \<Rightarrow> double \<Rightarrow> double \<Rightarrow> double
     \<Rightarrow> double \<Rightarrow> double \<Rightarrow> double \<Rightarrow> double list" where
  "launch n_threads x u_gpu n_blobs Lx Ly debye_length_wall eps_wall debye_length eps
       weight blob_radius =
     fold (\<lambda>i total_U. potential_from_position_blobs x total_U n_blobs Lx Ly debye_length_wall
                          eps_wall debye_length eps weight blob_radius i)
          [0..<n_threads] u_gpu"

text \<open>The keyword arguments of \<^verbatim>\<open>blobs_potential\<close> and \<^verbatim>\<open>compute_total_energy\<close>.\<close>

record kwargs =
  periodic_length :: vec3
  debye_length_wall :: double
  repulsion_strength_wall :: double
  debye_length :: double
  repulsion_strength :: double
  weight :: double
  blob_radius :: double

text \<open>
  \<^verbatim>\<open>blobs_potential\<close>. The argument \<open>u_gpu\<close> is the device array that
  \<^verbatim>\<open>cuda.mem_alloc\<close> returns: \<open>number_of_blobs\<close> doubles of arbitrary content. The
  copies between host and device do not change the values. \<^verbatim>\<open>np.sum\<close> adds the
  entries of \<open>U\<close>.
\<close>

definition blobs_potential :: "vec3 list \<Rightarrow> kwargs \<Rightarrow> double list \<Rightarrow> double" where
  "blobs_potential r_vectors kw u_gpu =
     (let number_of_blobs = length r_vectors;
          (threads_per_block, num_blocks) =
             set_number_of_threads_and_blocks (int number_of_blobs);
          x = reshape r_vectors;
          U = launch (nat (threads_per_block * num_blocks)) x u_gpu number_of_blobs
                (fst (periodic_length kw)) (fst (snd (periodic_length kw)))
                (debye_length_wall kw) (repulsion_strength_wall kw)
                (debye_length kw) (repulsion_strength kw) (weight kw) (blob_radius kw)
      in sum_list U)"

text \<open>\<^verbatim>\<open>compute_total_energy\<close> does not read its argument \<open>bodies\<close>.\<close>

definition compute_total_energy :: "'b \<Rightarrow> vec3 list \<Rightarrow> kwargs \<Rightarrow> double list \<Rightarrow> double" where
  "compute_total_energy bodies r_vectors kw u_gpu =
     (let u_blobs = blobs_potential r_vectors kw u_gpu;
          u_bodies = Fin 0.0
      in u_blobs + u_bodies)"


section \<open>Rigid bodies and the Metropolis sampler\<close>

text \<open>
  The translations follow the main loop of \<^verbatim>\<open>many_body_MCMC.py\<close>. The classes
  \<^verbatim>\<open>Body\<close> (body.py) and \<^verbatim>\<open>Quaternion\<close> (quaternion.py) are not part of the
  sources at hand. The sampler is therefore defined over any implementation of the three
  quaternion operations it relies on, collected in the record \<open>pose_ops\<close>.
\<close>

type_synonym quat = "double \<times> double \<times> double \<times> double"

record pose_ops =
  from_rotation :: "vec3 \<Rightarrow> quat"
  quat_mul :: "quat \<Rightarrow> quat \<Rightarrow> quat"
  rotate :: "quat \<Rightarrow> vec3 \<Rightarrow> vec3"

record body =
  reference_configuration :: "vec3 list"
  location :: vec3
  orientation :: quat
  location_new :: vec3
  orientation_new :: quat

definition Nblobs :: "body \<Rightarrow> nat" where
  "Nblobs b = length (reference_configuration b)"

definition vec_add :: "vec3 \<Rightarrow> vec3 \<Rightarrow> vec3" where
  "vec_add v w = (case v of (a, b, c) \<Rightarrow> case w of (d, e, f) \<Rightarrow> (a + d, b + e, c + f))"

definition vec_scale :: "vec3 \<Rightarrow> double \<Rightarrow> vec3" where
  "vec_scale v k = (case v of (a, b, c) \<Rightarrow> (a * k, b * k, c * k))"

text \<open>
  Modelled from the spec: \<^verbatim>\<open>Body.get_r_vectors(location, orientation)\<close>, which is not
  under src/. The lab-frame position of a blob is the location plus the reference offset
  rotated by the orientation, for every offset of the reference configuration in order.
\<close>

definition get_r_vectors :: "pose_ops \<Rightarrow> body \<Rightarrow> vec3 \<Rightarrow> quat \<Rightarrow> vec3 list" where
  "get_r_vectors ops b loc ori =
     map (\<lambda>offset. vec_add loc (rotate ops ori offset)) (reference_configuration b)"

datatype error = ValueError

text \<open>
  The numpy assignment \<^verbatim>\<open>a[offset : offset + k] = v\<close> for \<open>v\<close> of \<open>k\<close> rows. A slice
  that runs past the end of \<open>a\<close> is cut there; numpy then raises ValueError, unless
  \<open>v\<close> is a single row, which it broadcasts to the (empty) slice.
\<close>

definition slice_assign :: "vec3 list \<Rightarrow> nat \<Rightarrow> vec3 list \<Rightarrow> error + vec3 list" where
  "slice_assign a offset v =
     (if offset + length v \<le> length a
      then Inr (take offset a @ v @ drop (offset + length v) a)
      else if length v = 1 then Inr a
      else Inl ValueError)"

text \<open>
  \<^verbatim>\<open>get_blobs_r_vectors\<close>: the loop over the bodies, from \<open>offset\<close> on. The array
  \<open>r_vectors\<close> comes from \<^verbatim>\<open>np.empty\<close>, with arbitrary content.
\<close>

fun get_blobs_r_vectors_loop ::
  "pose_ops \<Rightarrow> body list \<Rightarrow> nat \<Rightarrow> vec3 list \<Rightarrow> error + vec3 list" where
  "get_blobs_r_vectors_loop ops [] offset r_vectors = Inr r_vectors"
| "get_blobs_r_vectors_loop ops (b # bs) offset r_vectors =
     (let num_blobs = Nblobs b
      in case slice_assign r_vectors offset (get_r_vectors ops b (location b) (orientation b)) of
           Inl e \<Rightarrow> Inl e
         | Inr r_vectors \<Rightarrow> get_blobs_r_vectors_loop ops bs (offset + num_blobs) r_vectors)"

definition get_blobs_r_vectors :: "pose_ops \<Rightarrow> body list \<Rightarrow> vec3 list \<Rightarrow> error + vec3 list" where
  "get_blobs_r_vectors ops bodies r_vectors = get_blobs_r_vectors_loop ops bodies 0 r_vectors"

text \<open>The parameters read from the input file that the loop uses.\<close>

record sim_params =
  kT :: double
  max_translation :: double
  max_angle_shift :: double
  potential_kwargs :: kwargs

text \<open>
  What one step takes from outside: the random numbers, in the order drawn, and the
  device array of the energy evaluation. \<^verbatim>\<open>np.random.uniform(low, high, 3)\<close> is
  \<open>low + (high - low) * s\<close> for a sample \<open>s\<close> of [0, 1) per component, and
  \<^verbatim>\<open>np.random.normal(0, 1, 3)\<close> a standard normal sample per component; \<open>i\<close> is
  the index of the body.
\<close>

record step_env =
  random_sample :: "nat \<Rightarrow> vec3"
  standard_normal :: "nat \<Rightarrow> vec3"
  uniform_accept :: double
  u_gpu :: "double list"

definition random_uniform :: "double \<Rightarrow> double \<Rightarrow> vec3 \<Rightarrow> vec3" where
  "random_uniform low high s =
     (case s of (a, b, c) \<Rightarrow>
        (low + (high - low) * a, low + (high - low) * b, low + (high - low) * c))"

record mcmc_state =
  bodies :: "body list"
  sample_r_vectors :: "vec3 list"
  current_state_energy :: double
  sample_state_energy :: double
  accepted_moves :: nat

text \<open>The two assignments to \<open>body.location_new\<close> and \<open>body.orientation_new\<close>.\<close>

definition disturb :: "pose_ops \<Rightarrow> sim_params \<Rightarrow> step_env \<Rightarrow> nat \<Rightarrow> body \<Rightarrow> body" where
  "disturb ops prm env i b =
     (let b = b\<lparr>location_new :=
                  vec_add (location b)
                    (random_uniform (- max_translation prm) (max_translation prm)
                       (random_sample env i))\<rparr>;
          quaternion_shift =
            from_rotation ops (vec_scale (standard_normal env i) (max_angle_shift prm));
          b = b\<lparr>orientation_new := quat_mul ops quaternion_shift (orientation b)\<rparr>
      in b)"

text \<open>
  \<^verbatim>\<open>for i, body in enumerate(bodies)\<close>: the bodies still to visit, the index \<open>i\<close> of
  the first of them, \<open>blob_index\<close> and the buffer; it returns the visited bodies and the
  buffer.
\<close>

fun disturb_loop ::
  "pose_ops \<Rightarrow> sim_params \<Rightarrow> step_env \<Rightarrow> body list \<Rightarrow> nat \<Rightarrow> nat \<Rightarrow> vec3 list
     \<Rightarrow> error + (body list \<times> vec3 list)" where
  "disturb_loop ops prm env [] i blob_index r = Inr ([], r)"
| "disturb_loop ops prm env (b # bs) i blob_index r =
     (let b = disturb ops prm env i b
      in case slice_assign r blob_index
                (get_r_vectors ops b (location_new b) (orientation_new b)) of
           Inl e \<Rightarrow> Inl e
         | Inr r \<Rightarrow>
             (case disturb_loop ops prm env bs (i + 1) (blob_index + Nblobs b) r of
                Inl e \<Rightarrow> Inl e
              | Inr (bs, r) \<Rightarrow> Inr (b # bs, r)))"

text \<open>\<^verbatim>\<open>body.location, body.orientation = body.location_new, body.orientation_new\<close>\<close>

definition commit :: "body \<Rightarrow> body" where
  "commit b = b\<lparr>location := location_new b, orientation := orientation_new b\<rparr>"

text \<open>The test of the \<^verbatim>\<open>if\<close> that accepts or rejects the sample state.\<close>

definition accept :: "double \<Rightarrow> double \<Rightarrow> double \<Rightarrow> double \<Rightarrow> bool" where
  "accept u sample_energy current_energy kT' =
     (u < d_exp (- (sample_energy - current_energy) / kT'))"

text \<open>
  One pass of the body of \<^verbatim>\<open>for step in range(...)\<close>, up to the point where data is
  saved: disturb the bodies, compute the energy of the sample state, accept or reject.
\<close>

definition mcmc_step ::
  "pose_ops \<Rightarrow> sim_params \<Rightarrow> step_env \<Rightarrow> mcmc_state \<Rightarrow> error + mcmc_state" where
  "mcmc_step ops prm env s =
     (case disturb_loop ops prm env (bodies s) 0 0 (sample_r_vectors s) of
        Inl e \<Rightarrow> Inl e
      | Inr (bs, r) \<Rightarrow>
          let s = s\<lparr>bodies := bs, sample_r_vectors := r\<rparr>;
              s = s\<lparr>sample_state_energy :=
                      compute_total_energy (bodies s) (sample_r_vectors s)
                        (potential_kwargs prm) (u_gpu env)\<rparr>
          in if accept (uniform_accept env) (sample_state_energy s) (current_state_energy s)
                  (kT prm)
             then Inr (s\<lparr>current_state_energy := sample_state_energy s,
                         accepted_moves := accepted_moves s + 1,
                         bodies := map commit (bodies s)\<rparr>)
             else Inr s)"

text \<open>The blob positions of the current and of the proposed pose of all bodies, in order.\<close>

definition current_positions :: "pose_ops \<Rightarrow> body list \<Rightarrow> vec3 list" where
  "current_positions ops bs =
     concat (map (\<lambda>b. get_r_vectors ops b (location b) (orientation b)) bs)"

definition proposed_positions :: "pose_ops \<Rightarrow> body list \<Rightarrow> vec3 list" where
  "proposed_positions ops bs =
     concat (map (\<lambda>b. get_r_vectors ops b (location_new b) (orientation_new b)) bs)"

text \<open>The bodies as the loop that disturbs them leaves them, from body index \<open>i\<close> on.\<close>

fun disturb_bodies :: "pose_ops \<Rightarrow> sim_params \<Rightarrow> step_env \<Rightarrow> body list \<Rightarrow> nat \<Rightarrow> body list" where
  "disturb_bodies ops prm env [] i = []"
| "disturb_bodies ops prm env (b # bs) i =
     disturb ops prm env i b # disturb_bodies ops prm env bs (i + 1)"

text \<open>
  The main program creates the buffer with one row for every blob of every body
  (\<^verbatim>\<open>Nblobs = sum([x.Nblobs for x in bodies])\<close>).
\<close>

definition buffer_fits :: "mcmc_state \<Rightarrow> bool" where
  "buffer_fits s = (length (sample_r_vectors s) = (\<Sum>b\<leftarrow>bodies s. Nblobs b))"

subsection \<open>Quaternions\<close>

text \<open>
  Modelled from the spec: the operations of the class \<^verbatim>\<open>Quaternion\<close> (quaternion.py,
  not under src/), for concrete evaluations of the sampler. A quaternion is \<open>(s, p1, p2, p3)\<close>;
  the product is the Hamilton product; \<open>from_rotation phi\<close> is the rotation by the angle
  \<open>|phi|\<close> about the axis \<open>phi\<close>; a vector is rotated by the rotation matrix of the
  quaternion.
\<close>

fun d_cos :: "double \<Rightarrow> double" where
  "d_cos (Fin a) = Fin (cos a)"
| "d_cos x = NaN"

fun d_sin :: "double \<Rightarrow> double" where
  "d_sin (Fin a) = Fin (sin a)"
| "d_sin x = NaN"

definition quaternion_product :: "quat \<Rightarrow> quat \<Rightarrow> quat" where
  "quaternion_product q1 q2 =
     (case q1 of (s1, a1, b1, c1) \<Rightarrow> case q2 of (s2, a2, b2, c2) \<Rightarrow>
        (s1 * s2 - a1 * a2 - b1 * b2 - c1 * c2,
         s1 * a2 + a1 * s2 + b1 * c2 - c1 * b2,
         s1 * b2 - a1 * c2 + b1 * s2 + c1 * a2,
         s1 * c2 + a1 * b2 - b1 * a2 + c1 * s2))"

definition quaternion_from_rotation :: "vec3 \<Rightarrow> quat" where
  "quaternion_from_rotation phi =
     (case phi of (x, y, z) \<Rightarrow>
        let phi_norm = d_sqrt (x * x + y * y + z * z);
            s = d_cos (phi_norm / Fin 2)
        in if phi_norm \<noteq> Fin 0
           then (s, d_sin (phi_norm / Fin 2) * (x / phi_norm),
                    d_sin (phi_norm / Fin 2) * (y / phi_norm),
                    d_sin (phi_norm / Fin 2) * (z / phi_norm))
           else (s, Fin 0, Fin 0, Fin 0))"

definition quaternion_rotate :: "quat \<Rightarrow> vec3 \<Rightarrow> vec3" where
  "quaternion_rotate q v =
     (case q of (s, a, b, c) \<Rightarrow> case v of (x, y, z) \<Rightarrow>
        let diag = s * s - Fin 0.5
        in (Fin 2 * (a * a + diag) * x + Fin 2 * (a * b - s * c) * y + Fin 2 * (a * c + s * b) * z,
            Fin 2 * (b * a + s * c) * x + Fin 2 * (b * b + diag) * y + Fin 2 * (b * c - s * a) * z,
            Fin 2 * (c * a - s * b) * x + Fin 2 * (c * b + s * a) * y + Fin 2 * (c * c + diag) * z))"

definition quaternion_ops :: pose_ops where
  "quaternion_ops =
     \<lparr>from_rotation = quaternion_from_rotation, quat_mul = quaternion_product,
      rotate = quaternion_rotate\<rparr>"

subsection \<open>A concrete step\<close>

text \<open>
  One body of two blobs, at height 1.5 over the wall, with the parameters
  \<open>example_kwargs\<close>; the random numbers move it down by 0.8, behind the wall, and turn it
  about the x axis. In the second state the height of the body is NaN.
\<close>

definition example_body :: body where
  "example_body =
     \<lparr>reference_configuration = [(Fin 0, Fin 0, Fin 0), (Fin 1, Fin 0, Fin 0)],
      location = (Fin 0, Fin 0, Fin 1.5), orientation = (Fin 1, Fin 0, Fin 0, Fin 0),
      location_new = (Fin 0, Fin 0, Fin 1.5), orientation_new = (Fin 1, Fin 0, Fin 0, Fin 0)\<rparr>"

definition example_env :: step_env where
  "example_env =
     \<lparr>random_sample = (\<lambda>i. (Fin 0.5, Fin 0.5, Fin 0.1)),
      standard_normal = (\<lambda>i. (Fin 1, Fin 0, Fin 0)),
      uniform_accept = Fin 0.5,
      u_gpu = [NaN, NaN]\<rparr>"

section \<open>The terms of the energy\<close>

text \<open>
  The contributions that make up the energy of a configuration \<open>r\<close>, each as the
  kernel computes it on the flattened coordinates: what \<^verbatim>\<open>one_blob_potential\<close> adds for
  blob \<open>i\<close>, what \<^verbatim>\<open>blob_blob_potential\<close> adds for the pair \<open>(i, j)\<close> in the loop body,
  and the value given to a blob behind the wall.
\<close>

definition one_blob_term :: "vec3 list \<Rightarrow> kwargs \<Rightarrow> nat \<Rightarrow> double" where
  "one_blob_term r kw i =
     one_blob_potential (Fin 0) (reshape r ! (i * 3)) (reshape r ! (i * 3 + 1))
       (reshape r ! (i * 3 + 2)) (blob_radius kw) (debye_length_wall kw)
       (repulsion_strength_wall kw) (weight kw)"

definition blob_blob_term :: "vec3 list \<Rightarrow> kwargs \<Rightarrow> nat \<Rightarrow> nat \<Rightarrow> double" where
  "blob_blob_term r kw i j =
     pair_step (reshape r) (fst (periodic_length kw)) (fst (snd (periodic_length kw)))
       (debye_length kw) (repulsion_strength kw) (blob_radius kw) i j (Fin 0)"

definition wall_penalty_term :: "vec3 list \<Rightarrow> kwargs \<Rightarrow> nat \<Rightarrow> double" where
  "wall_penalty_term r kw i =
     Fin 100000 * (- (reshape r ! (i * 3 + 2) - blob_radius kw) + Fin 1)"

text \<open>The height of blob \<open>i\<close> as the kernel reads it, and the test of its branch.\<close>

definition height :: "vec3 list \<Rightarrow> nat \<Rightarrow> double" where
  "height r i = reshape r ! (i * 3 + 2)"

definition above_wall :: "vec3 list \<Rightarrow> kwargs \<Rightarrow> nat \<Rightarrow> bool" where
  "above_wall r kw i = (blob_radius kw < height r i)"

text \<open>
  The output array \<open>U\<close> of \<^verbatim>\<open>blobs_potential\<close> after the copy from the device, before
  \<^verbatim>\<open>np.sum\<close>.
\<close>

definition output_array :: "vec3 list \<Rightarrow> kwargs \<Rightarrow> double list \<Rightarrow> double list" where
  "output_array r kw mem =
     (let number_of_blobs = length r;
          (threads_per_block, num_blocks) =
             set_number_of_threads_and_blocks (int number_of_blobs)
      in launch (nat (threads_per_block * num_blocks)) (reshape r) mem number_of_blobs
           (fst (periodic_length kw)) (fst (snd (periodic_length kw)))
           (debye_length_wall kw) (repulsion_strength_wall kw)
           (debye_length kw) (repulsion_strength kw) (weight kw) (blob_radius kw))"

text \<open>
  The total energy as the specification describes it: the one-blob terms of all
  blobs, plus the blob-blob term of every pair \<open>i < j\<close>, each pair once.
\<close>

definition spec_total_energy :: "vec3 list \<Rightarrow> kwargs \<Rightarrow> double" where
  "spec_total_energy r kw =
     (\<Sum>i<length r. one_blob_term r kw i)
     + (\<Sum>(i, j)\<in>{(i, j). i < j \<and> j < length r}. blob_blob_term r kw i j)"

text \<open>
  The terms that the evaluator adds up, in the order of the additions. The thread of
  blob \<open>i\<close> starts from the one-blob term and adds the blob-blob terms of the partners
  \<open>j = i + 1, \<dots>\<close> in turn, or it stores the penalty alone; \<^verbatim>\<open>np.sum\<close> then adds the
  slots of the threads.
\<close>

definition thread_terms :: "vec3 list \<Rightarrow> kwargs \<Rightarrow> nat \<Rightarrow> double list" where
  "thread_terms r kw i =
     (if above_wall r kw i
      then one_blob_term r kw i # map (blob_blob_term r kw i) [i + 1..<length r]
      else [wall_penalty_term r kw i])"

definition energy_terms :: "vec3 list \<Rightarrow> kwargs \<Rightarrow> double list" where
  "energy_terms r kw = concat (map (thread_terms r kw) [0..<length r])"

text \<open>
  A configuration and parameters for concrete evaluations: two blobs on the z axis,
  no periodicity, every other parameter 1.
\<close>

definition example_kwargs :: kwargs where
  "example_kwargs =
     \<lparr>periodic_length = (Fin 0, Fin 0, Fin 0), debye_length_wall = Fin 1,
      repulsion_strength_wall = Fin 1, debye_length = Fin 1, repulsion_strength = Fin 1,
      weight = Fin 1, blob_radius = Fin 1\<rparr>"

text \<open>
  The wrap of a displacement \<open>d\<close> with period \<open>L\<close> converts \<open>d / L \<plusminus> 0.5\<close> to
  \<^verbatim>\<open>int\<close>. \<open>fits_int d L\<close> says that both are finite and that the value to convert
  is at most \<open>2^31 - 1\<close> in absolute value, the largest \<^verbatim>\<open>int\<close>: the conversion then
  does not saturate, also when the quotient and the sum have been rounded to double
  (\<open>2^31 - 1\<close> is a double, and the three roundings raise the value by less than \<open>2^-20\<close>).
  \<open>wrap_fits r kw\<close> says so for the displacements of all pairs of blobs along each
  periodic axis.
\<close>

definition fits_int :: "double \<Rightarrow> double \<Rightarrow> bool" where
  "fits_int d L =
     (case d of
        Fin a \<Rightarrow> (case L of Fin l \<Rightarrow> \<bar>a / l\<bar> + 1 / 2 \<le> 2147483647 | _ \<Rightarrow> False)
      | _ \<Rightarrow> False)"

definition wrap_fits :: "vec3 list \<Rightarrow> kwargs \<Rightarrow> bool" where
  "wrap_fits r kw =
     (\<forall>i<length r. \<forall>j<length r.
        (0 < fst (periodic_length kw) \<longrightarrow>
           fits_int (fst (r ! i) - fst (r ! j)) (fst (periodic_length kw)))
      \<and> (0 < fst (snd (periodic_length kw)) \<longrightarrow>
           fits_int (fst (snd (r ! i)) - fst (snd (r ! j))) (fst (snd (periodic_length kw)))))"

text \<open>The input array with the rows of the blobs \<open>i\<close> and \<open>j\<close> exchanged.\<close>

definition swap_blobs :: "vec3 list \<Rightarrow> nat \<Rightarrow> nat \<Rightarrow> vec3 list" where
  "swap_blobs r i j = r[i := r ! j, j := r ! i]"

definition example_params :: sim_params where
  "example_params =
     \<lparr>kT = Fin 1, max_translation = Fin 1, max_angle_shift = Fin 1,
      potential_kwargs = example_kwargs\<rparr>"

definition example_state :: mcmc_state where
  "example_state =
     \<lparr>bodies = [example_body],
      sample_r_vectors = [(Fin 0, Fin 0, Fin 1.5), (Fin 1, Fin 0, Fin 1.5)],
      current_state_energy = Fin (3 + 4 * exp (- (1 / 2)) + exp (- 1)),
      sample_state_energy = Fin 0,
      accepted_moves = 0\<rparr>"

definition nan_state :: mcmc_state where
  "nan_state =
     example_state\<lparr>bodies := [example_body\<lparr>location := (Fin 0, Fin 0, NaN)\<rparr>],
                   sample_r_vectors := [(Fin 0, Fin 0, NaN), (Fin 1, Fin 0, NaN)],
                   current_state_energy := NaN\<rparr>"

text \<open>The states that the step leaves for \<open>example_state\<close> and for \<open>nan_state\<close>.\<close>

definition rejected_state :: mcmc_state where
  "rejected_state =
     example_state\<lparr>bodies := [example_body\<lparr>location_new := (Fin 0, Fin 0, Fin (7 / 10)),
                    orientation_new := (Fin (cos (1 / 2)), Fin (sin (1 / 2)), Fin 0, Fin 0)\<rparr>],
        sample_r_vectors := [(Fin 0, Fin 0, Fin (7 / 10)), (Fin 1, Fin 0, Fin (7 / 10))],
        sample_state_energy := Fin 260000\<rparr>"

definition nan_rejected :: mcmc_state where
  "nan_rejected =
     nan_state\<lparr>bodies := [example_body\<lparr>location := (Fin 0, Fin 0, NaN),
                    location_new := (Fin 0, Fin 0, NaN),
                    orientation_new := (Fin (cos (1 / 2)), Fin (sin (1 / 2)), Fin 0, Fin 0)\<rparr>],
        sample_r_vectors := [(Fin 0, Fin 0, NaN), (Fin 1, Fin 0, NaN)],
        sample_state_energy := NaN\<rparr>"

text \<open>
  Random numbers that move the body up by 0.5 instead, and the state that the step
  leaves then: the proposal has the lower energy and is accepted.
\<close>

definition rising_env :: step_env where
  "rising_env = example_env\<lparr>random_sample := (\<lambda>i. (Fin 0.5, Fin 0.5, Fin 0.75))\<rparr>"

definition accepted_state :: mcmc_state where
  "accepted_state =
     example_state\<lparr>bodies := [example_body\<lparr>location := (Fin 0, Fin 0, Fin 2),
                    orientation := (Fin (cos (1 / 2)), Fin (sin (1 / 2)), Fin 0, Fin 0),
                    location_new := (Fin 0, Fin 0, Fin 2),
                    orientation_new := (Fin (cos (1 / 2)), Fin (sin (1 / 2)), Fin 0, Fin 0)\<rparr>],
        sample_r_vectors := [(Fin 0, Fin 0, Fin 2), (Fin 1, Fin 0, Fin 2)],
        current_state_energy := Fin (4 + 3 * exp (- 1)),
        sample_state_energy := Fin (4 + 3 * exp (- 1)),
        accepted_moves := 1\<rparr>"





definition periodic_kwargs :: kwargs where
  "periodic_kwargs = example_kwargs\<lparr>periodic_length := (Fin 10, Fin 10, Fin 0)\<rparr>"


text \<open>
  Configurations of two blobs on the z axis: the first blob behind the wall, both above
  the wall, and both at the same point.
\<close>

definition blobs_behind :: "vec3 list" where
  "blobs_behind = [(Fin 0, Fin 0, Fin 0), (Fin 0, Fin 0, Fin 2)]"

definition blobs_above :: "vec3 list" where
  "blobs_above = [(Fin 0, Fin 0, Fin 2), (Fin 0, Fin 0, Fin 3)]"


section \<open>Properties of the energy kernel\<close>

lemma length_reshape: "length (reshape r) = 3 * length r"
  by (induction r) (auto simp: reshape_def)

lemma reshape_Cons: "reshape ((a, b, c) # r) = a # b # c # reshape r"
  by (simp add: reshape_def)

lemma nth_reshape:
  "i < length r \<Longrightarrow>
     reshape r ! (i * 3) = fst (r ! i) \<and>
     reshape r ! (i * 3 + 1) = fst (snd (r ! i)) \<and>
     reshape r ! (i * 3 + 2) = snd (snd (r ! i))"
proof (induction r arbitrary: i)
  case Nil
  then show ?case by simp
next
  case (Cons p r)
  obtain a b c where p: "p = (a, b, c)" by (cases p) auto
  show ?case
  proof (cases i)
    case 0
    then show ?thesis by (simp add: p reshape_Cons)
  next
    case (Suc k)
    with Cons.prems have "k < length r" by simp
    from Cons.IH [OF this] show ?thesis
      by (simp add: p reshape_Cons Suc)
  qed
qed

lemma blob_blob_potential_add:
  "i \<noteq> j \<Longrightarrow> blob_blob_potential u rx ry rz i j dl ep br
     = u + blob_blob_potential (Fin 0) rx ry rz i j dl ep br"
  by (simp add: blob_blob_potential_def Let_def zero_double_def [symmetric])

lemma pair_step_add:
  "i \<noteq> j \<Longrightarrow> pair_step x Lx Ly dl ep br i j u = u + pair_step x Lx Ly dl ep br i j (Fin 0)"
  by (simp add: pair_step_def blob_blob_potential_add [of i j u] split: prod.splits)

lemma pair_loop_sum:
  "i < j \<Longrightarrow> pair_loop x n Lx Ly dl ep br i j u
     = u + (\<Sum>k\<leftarrow>[j..<n]. pair_step x Lx Ly dl ep br i k (Fin 0))"
proof (induction x n Lx Ly dl ep br i j u rule: pair_loop.induct)
  case (1 x n Lx Ly dl ep br i j u)
  show ?case
  proof (cases "j < n")
    case True
    have "pair_loop x n Lx Ly dl ep br i j u
            = pair_loop x n Lx Ly dl ep br i (j + 1) (pair_step x Lx Ly dl ep br i j u)"
      using True by (subst pair_loop.simps) simp
    also have "\<dots> = pair_step x Lx Ly dl ep br i j u
                     + (\<Sum>k\<leftarrow>[j + 1..<n]. pair_step x Lx Ly dl ep br i k (Fin 0))"
      using "1.IH" [OF True] "1.prems" by simp
    also have "pair_step x Lx Ly dl ep br i j u = u + pair_step x Lx Ly dl ep br i j (Fin 0)"
      using "1.prems" by (intro pair_step_add) simp
    finally show ?thesis
      using True by (simp add: upt_conv_Cons add.assoc)
  next
    case False
    then show ?thesis
      by (subst pair_loop.simps) (simp add: zero_double_def [symmetric])
  qed
qed

lemma launch_prefix:
  "length g = n \<Longrightarrow>
   launch m x g n Lx Ly dlw ew dl ep w br
     = map (blob_u x n Lx Ly dlw ew dl ep w br) [0..<min m n] @ drop (min m n) g"
proof (induction m)
  case 0
  then show ?case by (simp add: launch_def)
next
  case (Suc m)
  let ?f = "blob_u x n Lx Ly dlw ew dl ep w br"
  have step: "launch (Suc m) x g n Lx Ly dlw ew dl ep w br
          = potential_from_position_blobs x (launch m x g n Lx Ly dlw ew dl ep w br)
              n Lx Ly dlw ew dl ep w br m"
    by (simp add: launch_def)
  show ?case
  proof (cases "m < n")
    case True
    then have mn: "min m n = m" "min (Suc m) n = Suc m" by simp_all
    have len: "length (map ?f [0..<m]) = m" by simp
    have "(map ?f [0..<m] @ drop m g)[m := ?f m] = map ?f [0..<m] @ (drop m g)[0 := ?f m]"
      using len by (simp add: list_update_append)
    moreover have "drop m g = g ! m # drop (Suc m) g"
      using True Suc.prems by (simp add: Cons_nth_drop_Suc)
    ultimately show ?thesis
      using True Suc.IH [OF Suc.prems]
      by (simp add: step potential_from_position_blobs_def mn)
  next
    case False
    then have "min m n = n" "min (Suc m) n = n" by simp_all
    then show ?thesis
      using False Suc.IH [OF Suc.prems]
      by (simp add: step potential_from_position_blobs_def)
  qed
qed

lemma launch_covering:
  "length g = n \<Longrightarrow> n \<le> m \<Longrightarrow>
   launch m x g n Lx Ly dlw ew dl ep w br = map (blob_u x n Lx Ly dlw ew dl ep w br) [0..<n]"
  by (simp add: launch_prefix min_absorb2)

lemma threads_cover:
  "set_number_of_threads_and_blocks (int n) = (t, b) \<Longrightarrow> n \<le> nat (t * b)"
proof -
  assume a: "set_number_of_threads_and_blocks (int n) = (t, b)"
  have t: "t \<in> {512, 256, 128, 64, 32}" and b: "b = (int n - 1) div t + 1"
    using a by (auto simp: set_number_of_threads_and_blocks_def Let_def split: if_splits)
  have tpos: "0 < t" using t by auto
  have "int n - 1 < ((int n - 1) div t + 1) * t"
    using tpos by (metis div_mult_mod_eq pos_mod_bound add_strict_left_mono distrib_left mult.commute mult.right_neutral)
  then have "int n \<le> t * b" by (simp add: b mult.commute)
  then show ?thesis by linarith
qed

lemma blobs_potential_sum:
  assumes "length g = length r"
  shows "blobs_potential r kw g =
     (\<Sum>i\<leftarrow>[0..<length r]. blob_u (reshape r) (length r)
         (fst (periodic_length kw)) (fst (snd (periodic_length kw)))
         (debye_length_wall kw) (repulsion_strength_wall kw)
         (debye_length kw) (repulsion_strength kw) (weight kw) (blob_radius kw) i)"
proof -
  obtain t b where tb: "set_number_of_threads_and_blocks (int (length r)) = (t, b)"
    by (cases "set_number_of_threads_and_blocks (int (length r))") auto
  from threads_cover [OF tb] have "length r \<le> nat (t * b)" .
  then show ?thesis
    using assms by (simp add: blobs_potential_def tb launch_covering Let_def)
qed

lemma compute_total_energy_sum:
  assumes "length g = length r"
  shows "compute_total_energy bs r kw g =
     (\<Sum>i\<leftarrow>[0..<length r]. blob_u (reshape r) (length r)
         (fst (periodic_length kw)) (fst (snd (periodic_length kw)))
         (debye_length_wall kw) (repulsion_strength_wall kw)
         (debye_length kw) (repulsion_strength kw) (weight kw) (blob_radius kw) i)"
  using blobs_potential_sum [OF assms]
  by (simp add: compute_total_energy_def zero_double_def [symmetric])

lemma double_le_not_less: "(a::double) \<le> b \<Longrightarrow> \<not> b < a"
  by (cases a; cases b) simp_all

lemma double_less_diff_pos: "(b::double) < a \<Longrightarrow> Fin 0 < a - b"
  by (cases a; cases b) (simp_all add: minus_double_def)

lemma blob_u_behind_wall:
  "\<not> br < x ! (i * 3 + 2) \<Longrightarrow>
   blob_u x n Lx Ly dlw ew dl ep w br i = Fin 100000 * (- (x ! (i * 3 + 2) - br) + Fin 1)"
  by (simp add: blob_u_def Let_def)

text \<open>
  C2. A blob with \<open>z \<le> blob_radius\<close> fails the test \<open>z > blob_radius\<close> of the
  kernel, so its thread takes the else branch: the local \<open>u\<close>, and the slot
  \<open>total_U[i]\<close> it is saved to, are \<open>1e5 * (-(z - blob_radius) + 1)\<close>, which is
  \<open>1e5\<close> when \<open>z\<close> is exactly a finite \<open>blob_radius\<close>. The call of
  \<^verbatim>\<open>one_blob_potential\<close>, which holds the division by \<open>z - blob_radius\<close>, sits in
  the other branch, and under the test of that branch the divisor is positive, hence not
  zero.
\<close>

theorem wall_penalty_branch:
  assumes z: "x ! (i * 3 + 2) \<le> br"
  shows "\<not> br < x ! (i * 3 + 2)
     \<and> blob_u x n Lx Ly dlw ew dl ep w br i
          = Fin 100000 * (- (x ! (i * 3 + 2) - br) + Fin 1)
     \<and> (i < n \<longrightarrow> i < length total_U \<longrightarrow>
          potential_from_position_blobs x total_U n Lx Ly dlw ew dl ep w br i ! i
            = Fin 100000 * (- (x ! (i * 3 + 2) - br) + Fin 1))
     \<and> (is_finite br \<longrightarrow> x ! (i * 3 + 2) = br \<longrightarrow>
          blob_u x n Lx Ly dlw ew dl ep w br i = Fin 100000)
     \<and> (br < z' \<longrightarrow> Fin 0 < z' - br \<and> z' - br \<noteq> Fin 0)"
proof -
  have g: "\<not> br < x ! (i * 3 + 2)"
    using z by (rule double_le_not_less)
  note u = blob_u_behind_wall [OF g, of n Lx Ly dlw ew dl ep w]
  have slot: "i < n \<longrightarrow> i < length total_U \<longrightarrow>
          potential_from_position_blobs x total_U n Lx Ly dlw ew dl ep w br i ! i
            = Fin 100000 * (- (x ! (i * 3 + 2) - br) + Fin 1)"
    by (simp add: potential_from_position_blobs_def u)
  have at: "is_finite br \<longrightarrow> x ! (i * 3 + 2) = br \<longrightarrow>
          blob_u x n Lx Ly dlw ew dl ep w br i = Fin 100000"
  proof (intro impI)
    assume "is_finite br" and e: "x ! (i * 3 + 2) = br"
    then obtain c where c: "br = Fin c"
      by (cases br) (simp_all add: is_finite_def)
    have "Fin 100000 * (- (br - br) + Fin 1) = Fin 100000"
      by (simp add: c minus_double_def)
    then show "blob_u x n Lx Ly dlw ew dl ep w br i = Fin 100000"
      using u by (simp only: e)
  qed
  have d: "br < z' \<longrightarrow> Fin 0 < z' - br \<and> z' - br \<noteq> Fin 0"
    using double_less_diff_pos [of br z'] by (cases "z' - br") auto
  from g u slot at d show ?thesis by blast
qed

theorem wall_penalty_branch_witness:
  "[Fin 0, Fin 0, Fin 1] ! (0 * 3 + 2) \<le> Fin 1
   \<and> blob_u [Fin 0, Fin 0, Fin 1] 1 (Fin 0) (Fin 0) (Fin 1) (Fin 1) (Fin 1) (Fin 1) (Fin 1) (Fin 1) 0
       = Fin 100000
   \<and> potential_from_position_blobs [Fin 0, Fin 0, Fin 1] [NaN] 1 (Fin 0) (Fin 0) (Fin 1) (Fin 1)
       (Fin 1) (Fin 1) (Fin 1) (Fin 1) 0 ! 0 = Fin 100000
   \<and> Fin 0 < Fin 3 - Fin 1"
proof -
  have h: "[Fin 0, Fin 0, Fin 1] ! (0 * 3 + 2) \<le> Fin 1" by simp
  show ?thesis
    using h wall_penalty_branch [OF h, of 1 "Fin 0" "Fin 0" "Fin 1" "Fin 1" "Fin 1" "Fin 1" "Fin 1"
        "[NaN]" "Fin 3"]
    by (simp add: is_finite_def minus_double_def)
qed

lemma blob_u_above_wall:
  assumes "br < x ! (i * 3 + 2)"
  shows "blob_u x n Lx Ly dlw ew dl ep w br i
     = one_blob_potential (Fin 0) (x ! (i * 3)) (x ! (i * 3 + 1)) (x ! (i * 3 + 2)) br dlw ew w
       + (\<Sum>j\<leftarrow>[i + 1..<n]. pair_step x Lx Ly dl ep br i j (Fin 0))"
proof -
  have "i < i + 1" by simp
  from pair_loop_sum [OF this] assms show ?thesis
    by (simp add: blob_u_def Let_def)
qed

lemma output_array_eq:
  assumes "length mem = length r"
  shows "output_array r kw mem =
     map (blob_u (reshape r) (length r)
         (fst (periodic_length kw)) (fst (snd (periodic_length kw)))
         (debye_length_wall kw) (repulsion_strength_wall kw)
         (debye_length kw) (repulsion_strength kw) (weight kw) (blob_radius kw)) [0..<length r]"
proof -
  obtain t b where tb: "set_number_of_threads_and_blocks (int (length r)) = (t, b)"
    by (cases "set_number_of_threads_and_blocks (int (length r))") auto
  from threads_cover [OF tb] have "length r \<le> nat (t * b)" .
  then show ?thesis
    using assms by (simp add: output_array_def tb launch_covering Let_def)
qed

lemma blobs_potential_output: "blobs_potential r kw mem = sum_list (output_array r kw mem)"
  by (simp add: blobs_potential_def output_array_def Let_def split: prod.splits)

lemma output_array_nth:
  assumes "length mem = length r" and "i < length r"
  shows "output_array r kw mem ! i =
     (if above_wall r kw i
      then one_blob_term r kw i + (\<Sum>j\<leftarrow>[i + 1..<length r]. blob_blob_term r kw i j)
      else wall_penalty_term r kw i)"
proof (cases "above_wall r kw i")
  case True
  then have "blob_radius kw < reshape r ! (i * 3 + 2)"
    by (simp add: above_wall_def height_def)
  from blob_u_above_wall [OF this] True assms show ?thesis
    by (simp add: output_array_eq one_blob_term_def blob_blob_term_def [abs_def])
next
  case False
  then have "\<not> blob_radius kw < reshape r ! (i * 3 + 2)"
    by (simp add: above_wall_def height_def)
  from blob_u_behind_wall [OF this] False assms show ?thesis
    by (simp add: output_array_eq wall_penalty_term_def)
qed

lemma length_output_array: "length mem = length r \<Longrightarrow> length (output_array r kw mem) = length r"
  by (simp add: output_array_eq)

lemma blobs_potential_terms:
  assumes "length mem = length r"
  shows "blobs_potential r kw mem =
     (\<Sum>i\<leftarrow>[0..<length r].
        if above_wall r kw i
        then one_blob_term r kw i + (\<Sum>j\<leftarrow>[i + 1..<length r]. blob_blob_term r kw i j)
        else wall_penalty_term r kw i)"
proof -
  have "output_array r kw mem =
     map (\<lambda>i. if above_wall r kw i
        then one_blob_term r kw i + (\<Sum>j\<leftarrow>[i + 1..<length r]. blob_blob_term r kw i j)
        else wall_penalty_term r kw i) [0..<length r]"
    by (rule nth_equalityI) (simp_all add: length_output_array assms output_array_nth)
  then show ?thesis by (simp add: blobs_potential_output)
qed

lemma compute_total_energy_blobs:
  "compute_total_energy bs r kw mem = blobs_potential r kw mem"
  by (simp add: compute_total_energy_def zero_double_def [symmetric])

text \<open>
  C10. If blob \<open>i\<close> has \<open>z \<le> blob_radius\<close>, its slot of the output array holds the
  wall penalty alone, and in the total energy the summand of blob \<open>i\<close> is that penalty:
  no blob-blob term \<open>(i, j)\<close> with \<open>j > i\<close> appears, since the loop over \<open>j\<close> is
  inside the branch \<open>z > blob_radius\<close>. The other blobs contribute their one-blob
  term and the pairs \<open>(k, j)\<close>, \<open>j > k\<close>, when above the wall, and their penalty otherwise.
\<close>

theorem behind_wall_pairs_omitted:
  assumes len: "length mem = length r"
      and i: "i < length r"
      and z: "height r i \<le> blob_radius kw"
  shows "output_array r kw mem ! i = wall_penalty_term r kw i
     \<and> compute_total_energy bs r kw mem
         = (\<Sum>k\<leftarrow>[0..<length r].
              if k \<noteq> i \<and> above_wall r kw k
              then one_blob_term r kw k + (\<Sum>j\<leftarrow>[k + 1..<length r]. blob_blob_term r kw k j)
              else wall_penalty_term r kw k)"
proof -
  have g: "\<not> above_wall r kw i"
    using z unfolding above_wall_def by (rule double_le_not_less)
  then have slot: "output_array r kw mem ! i = wall_penalty_term r kw i"
    using len i by (simp add: output_array_nth)
  have "(\<lambda>k. if above_wall r kw k
              then one_blob_term r kw k + (\<Sum>j\<leftarrow>[k + 1..<length r]. blob_blob_term r kw k j)
              else wall_penalty_term r kw k)
        = (\<lambda>k. if k \<noteq> i \<and> above_wall r kw k
              then one_blob_term r kw k + (\<Sum>j\<leftarrow>[k + 1..<length r]. blob_blob_term r kw k j)
              else wall_penalty_term r kw k)"
    using g by auto
  then have "compute_total_energy bs r kw mem
         = (\<Sum>k\<leftarrow>[0..<length r].
              if k \<noteq> i \<and> above_wall r kw k
              then one_blob_term r kw k + (\<Sum>j\<leftarrow>[k + 1..<length r]. blob_blob_term r kw k j)
              else wall_penalty_term r kw k)"
    by (simp add: compute_total_energy_blobs blobs_potential_terms [OF len])
  with slot show ?thesis by simp
qed

lemma total_all_above:
  assumes len: "length mem = length r"
      and above: "\<forall>i<length r. above_wall r kw i"
  shows "blobs_potential r kw mem = spec_total_energy r kw"
proof -
  let ?n = "length r"
  let ?P = "{(i, j). i < j \<and> j < ?n}"
  have "blobs_potential r kw mem
      = (\<Sum>i\<leftarrow>[0..<?n]. one_blob_term r kw i + (\<Sum>j\<leftarrow>[i + 1..<?n]. blob_blob_term r kw i j))"
    unfolding blobs_potential_terms [OF len]
    by (rule arg_cong [where f = sum_list], rule map_cong [OF refl]) (simp add: above)
  also have "\<dots> = (\<Sum>i\<in>{0..<?n}. one_blob_term r kw i
                       + (\<Sum>j\<in>{i + 1..<?n}. blob_blob_term r kw i j))"
    by (simp add: interv_sum_list_conv_sum_set_nat)
  also have "\<dots> = (\<Sum>i\<in>{0..<?n}. one_blob_term r kw i)
                 + (\<Sum>i\<in>{0..<?n}. \<Sum>j\<in>{i + 1..<?n}. blob_blob_term r kw i j)"
    by (rule sum.distrib)
  also have "(\<Sum>i\<in>{0..<?n}. \<Sum>j\<in>{i + 1..<?n}. blob_blob_term r kw i j)
           = (\<Sum>(i, j)\<in>(SIGMA i:{0..<?n}. {i + 1..<?n}). blob_blob_term r kw i j)"
    by (rule sum.Sigma) simp_all
  also have "(SIGMA i:{0..<?n}. {i + 1..<?n}) = ?P"
    by auto
  finally show ?thesis
    by (simp add: spec_total_energy_def atLeast0LessThan)
qed

subsection \<open>The periodic wrap\<close>


lemma trunc_uminus: "trunc (- a) = - trunc a"
  by (simp add: trunc_def ceiling_def)

lemma trunc_abs_le: "\<bar>real_of_int (trunc a)\<bar> \<le> \<bar>a\<bar>"
proof (cases "0 \<le> a")
  case True
  then have "0 \<le> \<lfloor>a\<rfloor>" by simp
  with True of_int_floor_le [of a] show ?thesis
    by (simp add: trunc_def)
next
  case False
  then have "\<lceil>a\<rceil> \<le> 0" by simp
  with False le_of_int_ceiling [of a] show ?thesis
    by (simp add: trunc_def)
qed

lemma double2int_in_range:
  assumes "\<bar>q\<bar> < 2147483648"
  shows "double2int (Fin q) = trunc q"
proof -
  have "\<bar>real_of_int (trunc q)\<bar> < 2147483648"
    using trunc_abs_le [of q] assms by linarith
  then have "\<bar>trunc q\<bar> < 2147483648"
    by linarith
  then have "\<not> 2147483647 < trunc q" and "\<not> trunc q < - 2147483648"
    by linarith+
  then show ?thesis
    by (simp add: INT_MAX_def INT_MIN_def)
qed

text \<open>The quotient that the kernel converts to \<^verbatim>\<open>int\<close>.\<close>

lemma wrap_quotient:
  assumes "l \<noteq> 0"
  shows "Fin a / Fin l + Fin 0.5 * int2double (bool2int (0 < Fin a) - bool2int (Fin a < 0))
           = Fin (a / l + sgn a / 2)"
  using assms by (simp add: int2double_def bool2int_def zero_double_def sgn_if)

lemma wrap_quotient_abs: "\<bar>a / l + sgn a / 2\<bar> \<le> \<bar>a / l\<bar> + 1 / 2"
  for a l :: real
proof -
  have "\<bar>sgn a / 2\<bar> \<le> 1 / 2" by (simp add: sgn_if)
  with abs_triangle_ineq [of "a / l" "sgn a / 2"] show ?thesis by linarith
qed

lemma minimum_image_Fin:
  assumes l: "0 < l" and fit: "\<bar>a / l\<bar> + 1 / 2 < 2147483648"
  shows "minimum_image (Fin a) (Fin l)
           = Fin (a - real_of_int (trunc (a / l + sgn a / 2)) * l)"
proof -
  have l0: "l \<noteq> 0" using l by simp
  have "\<bar>a / l + sgn a / 2\<bar> < 2147483648"
    using wrap_quotient_abs [of a l] fit by linarith
  then have "double2int (Fin (a / l + sgn a / 2)) = trunc (a / l + sgn a / 2)"
    by (rule double2int_in_range)
  then show ?thesis
    unfolding minimum_image_def wrap_quotient [OF l0]
    by (simp add: int2double_def minus_double_def)
qed

lemma nearest_integer:
  "\<bar>y - real_of_int (trunc (y + sgn y / 2))\<bar> \<le> 1 / 2"
proof (cases "0 \<le> y")
  case True
  then have "0 \<le> y + sgn y / 2" by (simp add: sgn_if)
  then have t: "trunc (y + sgn y / 2) = \<lfloor>y + sgn y / 2\<rfloor>"
    by (simp add: trunc_def)
  show ?thesis
  proof (cases "y = 0")
    case True
    then show ?thesis by (simp add: trunc_def)
  next
    case False
    with \<open>0 \<le> y\<close> have "sgn y = 1" by simp
    with floor_correct [of "y + 1 / 2"] show ?thesis
      unfolding t by (simp add: abs_if) linarith
  qed
next
  case False
  then have s: "sgn y = - 1" by simp
  have "\<not> 0 \<le> y - 1 / 2" using False by simp
  then have t: "trunc (y - 1 / 2) = \<lceil>y - 1 / 2\<rceil>"
    by (simp add: trunc_def)
  have "\<bar>y - real_of_int \<lceil>y - 1 / 2\<rceil>\<bar> \<le> 1 / 2"
    using ceiling_correct [of "y - 1 / 2"] by linarith
  then show ?thesis
    by (simp add: s t)
qed

lemma wrap_bound:
  assumes l: "0 < l"
  shows "\<bar>a - real_of_int (trunc (a / l + sgn a / 2)) * l\<bar> \<le> l / 2"
proof -
  let ?k = "real_of_int (trunc (a / l + sgn a / 2))"
  have "sgn l = 1" using l by simp
  then have sg: "sgn (a / l) = sgn a"
    by simp
  have "\<bar>a / l - ?k\<bar> \<le> 1 / 2"
    using nearest_integer [of "a / l"] unfolding sg .
  then have "\<bar>a / l - ?k\<bar> * l \<le> 1 / 2 * l"
    using l by (intro mult_right_mono) simp_all
  moreover have "\<bar>a / l - ?k\<bar> * l = \<bar>a - ?k * l\<bar>"
  proof -
    have "\<bar>a / l - ?k\<bar> * l = \<bar>(a / l - ?k) * l\<bar>"
      using l by (simp add: abs_mult)
    also have "(a / l - ?k) * l = a - ?k * l"
      using l by (simp add: algebra_simps)
    finally show ?thesis .
  qed
  ultimately show ?thesis by simp
qed

lemma minimum_image_uminus:
  assumes "0 < L" and "fits_int d L"
  shows "minimum_image (- d) L = - minimum_image d L"
proof -
  from assms obtain a l where d: "d = Fin a" and L: "L = Fin l"
    and fit: "\<bar>a / l\<bar> + 1 / 2 < 2147483648"
    by (auto simp: fits_int_def split: double.splits)
  have l: "0 < l" using assms(1) by (simp add: L zero_double_def)
  have fit': "\<bar>(- a) / l\<bar> + 1 / 2 < 2147483648" using fit by simp
  have q: "(- a) / l + sgn (- a) / 2 = - (a / l + sgn a / 2)"
    by (simp add: sgn_minus)
  have "minimum_image (- d) L = minimum_image (Fin (- a)) (Fin l)"
    by (simp add: d L)
  also have "\<dots> = Fin (- a - real_of_int (trunc ((- a) / l + sgn (- a) / 2)) * l)"
    by (rule minimum_image_Fin [OF l fit'])
  also have "\<dots> = Fin (- (a - real_of_int (trunc (a / l + sgn a / 2)) * l))"
    unfolding q trunc_uminus by simp
  also have "\<dots> = - minimum_image (Fin a) (Fin l)"
    unfolding minimum_image_Fin [OF l fit] by simp
  finally show ?thesis by (simp add: d L)
qed

lemma double_le_zero_not_pos: "(L::double) \<le> 0 \<Longrightarrow> \<not> 0 < L"
  by (rule double_le_not_less)

text \<open>The rounding to binary64.\<close>

lemma pow2_powr: "pow2 e = 2 powr (of_int e)"
  by (simp add: pow2_def powr_real_of_int inverse_eq_divide)

lemma pow2_pos: "0 < pow2 e"
  by (simp add: pow2_powr)

lemma pow2_add: "pow2 (a + b) = pow2 a * pow2 b"
  by (simp add: pow2_powr powr_add)

lemma round_even_error: "\<bar>of_int (round_even y) - y\<bar> \<le> 1 / 2"
proof -
  define f where "f = \<lfloor>y\<rfloor>"
  have "of_int f \<le> y" "y < of_int f + 1"
    unfolding f_def by linarith+
  then show ?thesis
    unfolding round_even_def f_def [symmetric] by (simp add: abs_if)
qed

lemma round_even_nonneg: "0 \<le> y \<Longrightarrow> 0 \<le> round_even y"
  unfolding round_even_def by auto

lemma round_even_nonpos:
  assumes "y \<le> 0"
  shows "round_even y \<le> 0"
proof (cases "y = 0")
  case True
  then show ?thesis by (simp add: round_even_def)
next
  case False
  with assms have "y < 0" by simp
  then have "\<lfloor>y\<rfloor> \<le> - 1"
    by (simp add: floor_le_iff)
  then show ?thesis
    unfolding round_even_def by auto
qed

lemma ulp64_pos: "0 < ulp64 x"
  by (simp add: ulp64_def pow2_pos)

lemma round64_error_ulp: "\<bar>round64 x - x\<bar> \<le> ulp64 x / 2"
proof -
  let ?q = "ulp64 x"
  have q: "0 < ?q" by (rule ulp64_pos)
  have "\<bar>round64 x - x\<bar> = \<bar>of_int (round_even (x / ?q)) - x / ?q\<bar> * ?q"
  proof -
    have "round64 x - x = (of_int (round_even (x / ?q)) - x / ?q) * ?q"
      using q by (simp add: round64_def algebra_simps)
    then show ?thesis
      using q by (simp add: abs_mult)
  qed
  also have "\<dots> \<le> 1 / 2 * ?q"
    using q by (intro mult_right_mono round_even_error) simp
  finally show ?thesis by simp
qed

lemma round64_zero: "round64 0 = 0"
  by (simp add: round64_def round_even_def)

lemma ulp64_le:
  assumes "x \<noteq> 0"
  shows "ulp64 x \<le> \<bar>x\<bar> / 2 ^ 52 + 1 / 2 ^ 1074"
proof (cases "- 1022 \<le> \<lfloor>log 2 \<bar>x\<bar>\<rfloor>")
  case True
  let ?e = "\<lfloor>log 2 \<bar>x\<bar>\<rfloor>"
  have e: "exponent64 x = ?e"
    using True by (simp add: exponent64_def)
  have "of_int ?e \<le> log 2 \<bar>x\<bar>"
    by simp
  then have "2 powr (of_int ?e) \<le> \<bar>x\<bar>"
    using assms le_log_iff [of 2 "\<bar>x\<bar>" "of_int ?e"] by simp
  then have "pow2 ?e \<le> \<bar>x\<bar>"
    by (simp add: pow2_powr)
  moreover have "ulp64 x = pow2 ?e * pow2 (- 52)"
    unfolding ulp64_def e using pow2_add [of ?e "- 52"] by simp
  moreover have "pow2 (- 52) = 1 / 2 ^ 52"
    by (simp add: pow2_def)
  ultimately have "ulp64 x \<le> \<bar>x\<bar> / 2 ^ 52"
    by (simp add: divide_right_mono)
  then show ?thesis
    by (simp add: add_increasing2)
next
  case False
  then have "exponent64 x = - 1022"
    by (simp add: exponent64_def)
  then have "ulp64 x = 1 / 2 ^ 1074"
    by (simp add: ulp64_def pow2_def)
  then show ?thesis
    by simp
qed

lemma round64_error: "\<bar>round64 x - x\<bar> \<le> \<bar>x\<bar> / 2 ^ 53 + 1 / 2 ^ 1075"
proof (cases "x = 0")
  case True
  then show ?thesis by (simp add: round64_zero)
next
  case False
  have "ulp64 x / 2 \<le> (\<bar>x\<bar> / 2 ^ 52 + 1 / 2 ^ 1074) / 2"
    using ulp64_le [OF False] by (rule divide_right_mono) simp
  with round64_error_ulp [of x]
  have "\<bar>round64 x - x\<bar> \<le> (\<bar>x\<bar> / 2 ^ 52 + 1 / 2 ^ 1074) / 2"
    by (rule order_trans)
  also have "\<dots> = \<bar>x\<bar> / 2 ^ 53 + 1 / 2 ^ 1075"
    by simp
  finally show ?thesis .
qed

lemma round64_nonneg: "0 \<le> x \<Longrightarrow> 0 \<le> round64 x"
  unfolding round64_def
  using ulp64_pos [of x] by (intro mult_nonneg_nonneg) (simp_all add: round_even_nonneg)

lemma round64_nonpos:
  assumes "x \<le> 0"
  shows "round64 x \<le> 0"
proof -
  have "x / ulp64 x \<le> 0"
    using assms ulp64_pos [of x] by (simp add: divide_nonpos_pos)
  then have "round_even (x / ulp64 x) \<le> 0"
    by (rule round_even_nonpos)
  then show ?thesis
    unfolding round64_def using ulp64_pos [of x]
    by (simp add: mult_nonpos_nonneg)
qed

lemma rnd_Fin:
  assumes "\<bar>x\<bar> \<le> 2 ^ 1023 + 1"
  shows "rnd (Fin x) = Fin (round64 x)"
proof -
  have "\<bar>round64 x\<bar> \<le> \<bar>x\<bar> + \<bar>round64 x - x\<bar>"
    by linarith
  also have "\<dots> \<le> \<bar>x\<bar> + (\<bar>x\<bar> / 2 ^ 53 + 1 / 2 ^ 1075)"
    using round64_error [of x] by linarith
  also have "\<dots> < 2 ^ 1024"
    using assms by simp
  finally show ?thesis
    by (simp add: rnd_def)
qed

lemma exponent64_eq:
  assumes "pow2 e \<le> \<bar>x\<bar>" and "\<bar>x\<bar> < pow2 (e + 1)" and "- 1022 \<le> e"
  shows "exponent64 x = e"
proof -
  have x: "0 < \<bar>x\<bar>"
    using assms(1) pow2_pos [of e] by linarith
  have "\<lfloor>log 2 \<bar>x\<bar>\<rfloor> = e"
    using assms(1,2) floor_log_eq_powr_iff [of "\<bar>x\<bar>" 2 e] x
    by (simp add: pow2_powr)
  with assms(3) show ?thesis
    by (simp add: exponent64_def)
qed

lemma round64_eval:
  assumes "pow2 e \<le> \<bar>x\<bar>" and "\<bar>x\<bar> < pow2 (e + 1)" and "- 1022 \<le> e"
  shows "round64 x = of_int (round_even (x / pow2 (e - 52))) * pow2 (e - 52)"
  by (simp add: round64_def ulp64_def exponent64_eq [OF assms])

lemma r_quotient: "round64 ((3 / 2 - 1 / 2 ^ 52) / 3) = 1 / 2 - 1 / 2 ^ 54"
  by (subst round64_eval [where e = "- 2"]) (simp_all add: pow2_def round_even_def)

lemma r_sum: "round64 (1 / 2 - 1 / 2 ^ 54 + 1 / 2) = 1"
  by (subst round64_eval [where e = "- 1"]) (simp_all add: pow2_def round_even_def)

lemma r_product: "round64 3 = 3"
  by (subst round64_eval [where e = 1]) (simp_all add: pow2_def round_even_def)

lemma r_difference: "round64 (3 / 2 - 1 / 2 ^ 52 - 3) = - (3 / 2 + 1 / 2 ^ 52)"
  by (subst round64_eval [where e = 0]) (simp_all add: pow2_def round_even_def)

lemma wrap_rounding_example:
  "minimum_image_binary64 fused (Fin (3 / 2 - 1 / 2 ^ 52)) (Fin 3)
     = Fin (- (3 / 2 + 1 / 2 ^ 52))"
proof -
  have q: "rnd (Fin (3 / 2 - 1 / 2 ^ 52) / Fin 3) = Fin (1 / 2 - 1 / 2 ^ 54)"
    using rnd_Fin [of "(3 / 2 - 1 / 2 ^ 52) / 3"] r_quotient by simp
  have s: "rnd (Fin (1 / 2 - 1 / 2 ^ 54) + Fin 0.5 * int2double 1) = Fin 1"
    using rnd_Fin [of "1 / 2 - 1 / 2 ^ 54 + 1 / 2"] r_sum by (simp add: int2double_def)
  have k: "double2int (Fin 1) = 1"
    by (simp add: trunc_def INT_MAX_def INT_MIN_def)
  have p: "rnd (Fin 3) = Fin 3"
    using rnd_Fin [of 3] r_product by simp
  have d: "rnd (Fin (3 / 2 - 1 / 2 ^ 52) - Fin 3) = Fin (- (3 / 2 + 1 / 2 ^ 52))"
    using rnd_Fin [of "3 / 2 - 1 / 2 ^ 52 - 3"] r_difference by (simp add: minus_double_def)
  have sg: "bool2int (0 < Fin (3 / 2 - 1 / 2 ^ 52)) - bool2int (Fin (3 / 2 - 1 / 2 ^ 52) < 0) = 1"
    by (simp add: bool2int_def zero_double_def)
  have p': "int2double 1 * Fin 3 = Fin 3"
    by (simp add: int2double_def)
  show ?thesis
    unfolding minimum_image_binary64_def Let_def sg q s k
    by (cases fused) (simp_all only: p' p d if_True if_False)
qed

lemma wrap_saturation_example:
  "minimum_image_binary64 fused (Fin 3000000000) (Fin 1) = Fin 852516353"
proof -
  have r1: "round64 3000000000 = 3000000000"
    by (subst round64_eval [where e = 31]) (simp_all add: pow2_def round_even_def)
  have r2: "round64 (3000000000 + 1 / 2) = 3000000000 + 1 / 2"
    by (subst round64_eval [where e = 31]) (simp_all add: pow2_def round_even_def)
  have r3: "round64 2147483647 = 2147483647"
    by (subst round64_eval [where e = 30]) (simp_all add: pow2_def round_even_def)
  have r4: "round64 852516353 = 852516353"
    by (subst round64_eval [where e = 29]) (simp_all add: pow2_def round_even_def)
  have q: "rnd (Fin 3000000000 / Fin 1) = Fin 3000000000"
    using rnd_Fin [of 3000000000] r1 by simp
  have sg: "bool2int (0 < Fin 3000000000) - bool2int (Fin 3000000000 < 0) = 1"
    by (simp add: bool2int_def zero_double_def)
  have s: "rnd (Fin 3000000000 + Fin 0.5 * int2double 1) = Fin (3000000000 + 1 / 2)"
    using rnd_Fin [of "3000000000 + 1 / 2"] r2 by (simp add: int2double_def)
  have k: "double2int (Fin (3000000000 + 1 / 2)) = 2147483647"
    by (simp add: trunc_def INT_MAX_def INT_MIN_def)
  have p: "rnd (Fin 2147483647) = Fin 2147483647"
    using rnd_Fin [of 2147483647] r3 by simp
  have d: "rnd (Fin 3000000000 - Fin 2147483647) = Fin 852516353"
    using rnd_Fin [of 852516353] r4 by (simp add: minus_double_def)
  have p': "int2double 2147483647 * Fin 1 = Fin 2147483647"
    by (simp add: int2double_def)
  show ?thesis
    unfolding minimum_image_binary64_def Let_def sg q s k
    by (cases fused) (simp_all only: p' p d if_True if_False)
qed

lemma sign_term: "int2double (bool2int (0 < Fin a) - bool2int (Fin a < 0)) = Fin (sgn a)"
  by (simp add: int2double_def bool2int_def zero_double_def sgn_if)

text \<open>The integer that the conversion of the rounded sum gives.\<close>

lemma rounded_quotient:
  fixes y :: real
  defines "q1 \<equiv> round64 y"
  defines "q2 \<equiv> round64 (q1 + sgn y / 2)"
  assumes y: "\<bar>y\<bar> + 1 / 2 \<le> 2147483647"
  shows "\<bar>y - of_int (trunc q2)\<bar> \<le> 1 / 2 + (\<bar>y\<bar> + 1) / 2 ^ 51"
    and "\<bar>q2\<bar> < 2147483648"
    and "\<bar>q1\<bar> \<le> 2147483648"
    and "\<bar>q1 + sgn y / 2\<bar> \<le> 2147483649"
proof -
  let ?b = "q1 + sgn y / 2"
  have e1: "\<bar>q1 - y\<bar> \<le> \<bar>y\<bar> / 2 ^ 53 + 1 / 2 ^ 1075"
    unfolding q1_def by (rule round64_error)
  have e2: "\<bar>q2 - ?b\<bar> \<le> \<bar>?b\<bar> / 2 ^ 53 + 1 / 2 ^ 1075"
    unfolding q2_def by (rule round64_error)
  have s: "\<bar>sgn y / 2\<bar> \<le> 1 / 2"
    by (simp add: sgn_if)
  have q1: "\<bar>q1\<bar> \<le> \<bar>y\<bar> + (\<bar>y\<bar> / 2 ^ 53 + 1 / 2 ^ 1075)"
    using e1 by linarith
  have b: "\<bar>?b\<bar> \<le> \<bar>y\<bar> + (\<bar>y\<bar> / 2 ^ 53 + 1 / 2 ^ 1075) + 1 / 2"
    using q1 s by linarith
  have "\<bar>q2 - (y + sgn y / 2)\<bar> \<le> \<bar>q2 - ?b\<bar> + \<bar>q1 - y\<bar>"
    by linarith
  also have "\<dots> \<le> (\<bar>y\<bar> + (\<bar>y\<bar> / 2 ^ 53 + 1 / 2 ^ 1075) + 1 / 2) / 2 ^ 53 + 1 / 2 ^ 1075
                 + (\<bar>y\<bar> / 2 ^ 53 + 1 / 2 ^ 1075)"
  proof -
    have "\<bar>?b\<bar> / 2 ^ 53 \<le> (\<bar>y\<bar> + (\<bar>y\<bar> / 2 ^ 53 + 1 / 2 ^ 1075) + 1 / 2) / 2 ^ 53"
      using b by (rule divide_right_mono) simp
    with e1 e2 show ?thesis by linarith
  qed
  also have "\<dots> \<le> (\<bar>y\<bar> + 1) / 2 ^ 51"
    using abs_ge_zero [of y] by (simp add: field_simps)
  finally have eta: "\<bar>q2 - (y + sgn y / 2)\<bar> \<le> (\<bar>y\<bar> + 1) / 2 ^ 51" .
  have "\<bar>y\<bar> + (\<bar>y\<bar> / 2 ^ 53 + 1 / 2 ^ 1075) \<le> 2147483648"
    using y abs_ge_zero [of y] by (simp add: field_simps)
  with q1 b show "\<bar>q1\<bar> \<le> 2147483648" and "\<bar>?b\<bar> \<le> 2147483649"
    by linarith+
  show "\<bar>q2\<bar> < 2147483648"
  proof -
    have "\<bar>q2\<bar> \<le> \<bar>y\<bar> + 1 / 2 + (\<bar>y\<bar> + 1) / 2 ^ 51"
      using eta s by linarith
    also have "\<dots> < 2147483648"
      using y abs_ge_zero [of y] by (simp add: field_simps)
    finally show ?thesis .
  qed
  show "\<bar>y - of_int (trunc q2)\<bar> \<le> 1 / 2 + (\<bar>y\<bar> + 1) / 2 ^ 51"
  proof -
    define h where "h = (\<bar>y\<bar> + 1) / 2 ^ 51"
    have eta': "\<bar>q2 - (y + sgn y / 2)\<bar> \<le> h"
      using eta by (simp only: h_def)
    consider "0 < y" | "y < 0" | "y = 0" by linarith
    then have "\<bar>y - of_int (trunc q2)\<bar> \<le> 1 / 2 + h"
    proof cases
      case 1
      then have "0 \<le> q1"
        unfolding q1_def by (intro round64_nonneg) simp
      with 1 have "0 \<le> ?b" by (simp add: sgn_if)
      then have pos: "0 \<le> q2"
        unfolding q2_def by (rule round64_nonneg)
      then have k: "trunc q2 = \<lfloor>q2\<rfloor>" by (simp add: trunc_def)
      have fl: "of_int \<lfloor>q2\<rfloor> \<le> q2" "q2 < of_int \<lfloor>q2\<rfloor> + 1"
        by linarith+
      from 1 have "sgn y / 2 = 1 / 2" by simp
      with eta' have "\<bar>q2 - (y + 1 / 2)\<bar> \<le> h" by simp
      with fl show ?thesis
        unfolding k by linarith
    next
      case 2
      then have "q1 \<le> 0"
        unfolding q1_def by (intro round64_nonpos) simp
      with 2 have "?b \<le> 0" by (simp add: sgn_if)
      then have neg: "q2 \<le> 0"
        unfolding q2_def by (rule round64_nonpos)
      have k: "trunc q2 = \<lceil>q2\<rceil>"
      proof (cases "q2 = 0")
        case True
        then show ?thesis by (simp add: trunc_def)
      next
        case False
        with neg show ?thesis by (simp add: trunc_def)
      qed
      have cl: "q2 \<le> of_int \<lceil>q2\<rceil>" "of_int \<lceil>q2\<rceil> < q2 + 1"
        by linarith+
      from 2 have "sgn y / 2 = - (1 / 2)" by simp
      with eta' have "\<bar>q2 - (y - 1 / 2)\<bar> \<le> h" by simp
      with cl show ?thesis
        unfolding k by linarith
    next
      case 3
      then have "q1 = 0" by (simp add: q1_def round64_zero)
      with 3 have "q2 = 0" by (simp add: q2_def round64_zero)
      with 3 show ?thesis by (simp add: trunc_def h_def)
    qed
    then show ?thesis
      by (simp only: h_def)
  qed
qed

lemma minimum_image_binary64_bound:
  assumes l: "0 < l" and fit: "\<bar>a / l\<bar> + 1 / 2 \<le> 2147483647"
      and big: "\<bar>a\<bar> + l \<le> 2 ^ 1023"
  shows "\<exists>(k::int) d'. minimum_image_binary64 fused (Fin a) (Fin l) = Fin d'
      \<and> \<bar>d' - (a - of_int k * l)\<bar> \<le> (\<bar>a\<bar> + l) / 2 ^ 50 + 1 / 2 ^ 1073
      \<and> \<bar>d'\<bar> \<le> l / 2 + (\<bar>a\<bar> + l) / 2 ^ 50 + 1 / 2 ^ 1073"
proof -
  define y where "y = a / l"
  define q1 where "q1 = round64 y"
  define q2 where "q2 = round64 (q1 + sgn y / 2)"
  define k where "k = trunc q2"
  define p where "p = (if fused then of_int k * l else round64 (of_int k * l))"
  define d' where "d' = round64 (a - p)"
  define h where "h = (\<bar>a\<bar> + l) / 2 ^ 53"
  define m :: real where "m = 1 / 2 ^ 1075"
  have m: "0 \<le> m" "m \<le> 1"
    by (simp_all add: m_def)
  have h: "0 \<le> h"
    using l by (simp add: h_def)
  have hl: "l \<le> 2 ^ 53 * h"
    by (simp add: h_def)
  have hb: "2 ^ 53 * h \<le> 2 ^ 1023"
    using big by (simp add: h_def)
  have sy: "sgn y = sgn a"
    using l by (simp add: y_def sgn_divide)
  have al: "\<bar>a\<bar> = \<bar>y\<bar> * l"
    using l by (simp add: y_def abs_divide)
  have fit': "\<bar>y\<bar> + 1 / 2 \<le> 2147483647"
    using fit by (simp only: y_def)
  have rq1: "\<bar>y - of_int k\<bar> \<le> 1 / 2 + (\<bar>y\<bar> + 1) / 2 ^ 51"
    unfolding k_def q2_def q1_def by (rule rounded_quotient(1) [OF fit'])
  have rq2: "\<bar>q2\<bar> < 2147483648"
    unfolding q2_def q1_def by (rule rounded_quotient(2) [OF fit'])
  have rq3: "\<bar>q1 + sgn y / 2\<bar> \<le> 2147483649"
    unfolding q1_def by (rule rounded_quotient(4) [OF fit'])
  have D: "\<bar>a - of_int k * l\<bar> \<le> l / 2 + 4 * h"
  proof -
    have "a - of_int k * l = (y - of_int k) * l"
      using l by (simp add: y_def algebra_simps)
    then have "\<bar>a - of_int k * l\<bar> = \<bar>y - of_int k\<bar> * l"
      using l by (simp add: abs_mult)
    also have "\<dots> \<le> (1 / 2 + (\<bar>y\<bar> + 1) / 2 ^ 51) * l"
      using rq1 l by (intro mult_right_mono) simp_all
    also have "\<dots> = l / 2 + 4 * h"
      by (simp add: h_def al algebra_simps)
    finally show ?thesis .
  qed
  have kl: "\<bar>of_int k * l\<bar> \<le> 2 ^ 53 * h"
  proof -
    have "(\<bar>y\<bar> + 1) / 2 ^ 51 \<le> 1 / 2"
      using fit' abs_ge_zero [of y] by (simp add: field_simps)
    with rq1 have "\<bar>of_int k\<bar> \<le> \<bar>y\<bar> + 1"
      by linarith
    then have "\<bar>of_int k\<bar> * l \<le> (\<bar>y\<bar> + 1) * l"
      using l by (intro mult_right_mono) simp_all
    then show ?thesis
      using l by (simp add: abs_mult al h_def algebra_simps)
  qed
  have pe: "\<bar>p - of_int k * l\<bar> \<le> h + m"
  proof (cases fused)
    case True
    then show ?thesis
      using h m(1) by (simp add: p_def)
  next
    case False
    have "\<bar>round64 (of_int k * l) - of_int k * l\<bar> \<le> \<bar>of_int k * l\<bar> / 2 ^ 53 + m"
      unfolding m_def by (rule round64_error)
    moreover have "\<bar>of_int k * l\<bar> / 2 ^ 53 \<le> 2 ^ 53 * h / 2 ^ 53"
      using kl by (rule divide_right_mono) simp
    ultimately show ?thesis
      using False by (simp add: p_def)
  qed
  have ap: "\<bar>a - p\<bar> \<le> l / 2 + 5 * h + m"
    using D pe by linarith
  have de: "\<bar>d' - (a - p)\<bar> \<le> h + 2 * m"
  proof -
    have "\<bar>d' - (a - p)\<bar> \<le> \<bar>a - p\<bar> / 2 ^ 53 + m"
      unfolding d'_def m_def by (rule round64_error)
    moreover have "\<bar>a - p\<bar> / 2 ^ 53 \<le> (l / 2 + 5 * h + m) / 2 ^ 53"
      using ap by (rule divide_right_mono) simp
    moreover have "(l / 2 + 5 * h + m) / 2 ^ 53 \<le> h + m"
      using hl h m(1) by (simp add: field_simps)
    ultimately show ?thesis by linarith
  qed
  have near: "\<bar>d' - (a - of_int k * l)\<bar> \<le> 2 * h + 3 * m"
    using de pe by linarith
  have bound: "\<bar>d'\<bar> \<le> l / 2 + 6 * h + 3 * m"
    using near D by linarith
  have final: "8 * h + 4 * m = (\<bar>a\<bar> + l) / 2 ^ 50 + 1 / 2 ^ 1073"
    by (simp add: h_def m_def)
  have l0: "l \<noteq> 0" using l by simp
  have s1: "rnd (Fin a / Fin l) = Fin q1"
  proof -
    have "\<bar>y\<bar> \<le> 2 ^ 1023 + 1"
      using fit' by simp
    then show ?thesis
      using l0 by (simp add: rnd_Fin y_def q1_def)
  qed
  have s2: "rnd (Fin q1 + Fin 0.5 * Fin (sgn a)) = Fin q2"
  proof -
    have "\<bar>q1 + sgn y / 2\<bar> \<le> 2 ^ 1023 + 1"
      using rq3 by simp
    then have "rnd (Fin (q1 + sgn y / 2)) = Fin q2"
      by (simp add: rnd_Fin q2_def)
    then show ?thesis
      by (simp add: sy)
  qed
  have s3: "double2int (Fin q2) = k"
    unfolding k_def using rq2 by (rule double2int_in_range)
  have s4: "(if fused then int2double k * Fin l else rnd (int2double k * Fin l)) = Fin p"
  proof -
    have "\<bar>of_int k * l\<bar> \<le> 2 ^ 1023 + 1"
      using kl hb by linarith
    then show ?thesis
      by (simp add: rnd_Fin int2double_def p_def)
  qed
  have s5: "rnd (Fin a - Fin p) = Fin d'"
  proof -
    have "l / 2 + 5 * h \<le> 2 ^ 53 * h"
      using hl h by (simp add: field_simps)
    with ap hb m(2) have "\<bar>a - p\<bar> \<le> 2 ^ 1023 + 1"
      by linarith
    then show ?thesis
      by (simp add: rnd_Fin minus_double_def d'_def)
  qed
  have "minimum_image_binary64 fused (Fin a) (Fin l) = Fin d'"
    unfolding minimum_image_binary64_def Let_def sign_term s1 s2 s3 s4 s5 ..
  moreover have "\<bar>d' - (a - of_int k * l)\<bar> \<le> (\<bar>a\<bar> + l) / 2 ^ 50 + 1 / 2 ^ 1073"
    using near h m(1) unfolding final [symmetric] by linarith
  moreover have "\<bar>d'\<bar> \<le> l / 2 + (\<bar>a\<bar> + l) / 2 ^ 50 + 1 / 2 ^ 1073"
  proof -
    have "\<bar>d'\<bar> \<le> l / 2 + (8 * h + 4 * m)"
      using bound h m(1) by linarith
    then show ?thesis
      by (simp only: final add.assoc)
  qed
  ultimately show ?thesis by blast
qed

text \<open>
  C5, as amended. For finite \<open>d\<close> and \<open>L > 0\<close>: evaluated exactly, with
  \<open>|d / L| + 1/2 < 2^31\<close> so that the quotient fits the 32-bit \<^verbatim>\<open>int\<close> of the kernel, the
  wrapped displacement is \<open>d - k * L\<close> for an integer \<open>k\<close> and lies within \<open>L / 2\<close> of
  zero. As the kernel computes it, with every operation rounded to double, for
  \<open>|d / L| + 1/2 \<le> 2^31 - 1\<close> and \<open>|d| + L \<le> 2^1023\<close>, the result is finite, within
  \<open>e = 2^-50 * (|d| + L) + 2^-1073\<close> of \<open>d - k * L\<close> for an integer \<open>k\<close>, and within
  \<open>L / 2 + e\<close> of zero. The wrap is applied to the x and y components exactly when the
  period of the axis is positive: with \<open>L \<le> 0\<close> the component is the plain difference,
  and the z component always is.
\<close>

theorem minimum_image_wrap:
  "(0 < l \<longrightarrow> \<bar>a / l\<bar> + 1 / 2 < 2147483648 \<longrightarrow>
      (\<exists>k::int. minimum_image (Fin a) (Fin l) = Fin (a - real_of_int k * l)
               \<and> \<bar>a - real_of_int k * l\<bar> \<le> l / 2))
   \<and> (0 < l \<longrightarrow> \<bar>a / l\<bar> + 1 / 2 \<le> 2147483647 \<longrightarrow> \<bar>a\<bar> + l \<le> 2 ^ 1023 \<longrightarrow>
      (\<exists>(k::int) d'. minimum_image_binary64 fused (Fin a) (Fin l) = Fin d'
               \<and> \<bar>d' - (a - real_of_int k * l)\<bar> \<le> (\<bar>a\<bar> + l) / 2 ^ 50 + 1 / 2 ^ 1073
               \<and> \<bar>d'\<bar> \<le> l / 2 + (\<bar>a\<bar> + l) / 2 ^ 50 + 1 / 2 ^ 1073))
   \<and> pair_displacement x Lx Ly i j =
       ((if 0 < Lx then minimum_image (x ! (i * 3) - x ! (j * 3)) Lx
         else x ! (i * 3) - x ! (j * 3)),
        (if 0 < Ly then minimum_image (x ! (i * 3 + 1) - x ! (j * 3 + 1)) Ly
         else x ! (i * 3 + 1) - x ! (j * 3 + 1)),
        x ! (i * 3 + 2) - x ! (j * 3 + 2))
   \<and> (Lx \<le> 0 \<longrightarrow> fst (pair_displacement x Lx Ly i j) = x ! (i * 3) - x ! (j * 3))
   \<and> (Ly \<le> 0 \<longrightarrow>
        fst (snd (pair_displacement x Lx Ly i j)) = x ! (i * 3 + 1) - x ! (j * 3 + 1))"
proof -
  have wrap: "0 < l \<longrightarrow> \<bar>a / l\<bar> + 1 / 2 < 2147483648 \<longrightarrow>
      (\<exists>k::int. minimum_image (Fin a) (Fin l) = Fin (a - real_of_int k * l)
               \<and> \<bar>a - real_of_int k * l\<bar> \<le> l / 2)"
  proof (intro impI)
    assume l: "0 < l" and fit: "\<bar>a / l\<bar> + 1 / 2 < 2147483648"
    from minimum_image_Fin [OF l fit] wrap_bound [OF l, of a]
    show "\<exists>k::int. minimum_image (Fin a) (Fin l) = Fin (a - real_of_int k * l)
               \<and> \<bar>a - real_of_int k * l\<bar> \<le> l / 2"
      by blast
  qed
  have rounded: "0 < l \<longrightarrow> \<bar>a / l\<bar> + 1 / 2 \<le> 2147483647 \<longrightarrow> \<bar>a\<bar> + l \<le> 2 ^ 1023 \<longrightarrow>
      (\<exists>(k::int) d'. minimum_image_binary64 fused (Fin a) (Fin l) = Fin d'
               \<and> \<bar>d' - (a - real_of_int k * l)\<bar> \<le> (\<bar>a\<bar> + l) / 2 ^ 50 + 1 / 2 ^ 1073
               \<and> \<bar>d'\<bar> \<le> l / 2 + (\<bar>a\<bar> + l) / 2 ^ 50 + 1 / 2 ^ 1073)"
    by (intro impI minimum_image_binary64_bound)
  have disp: "pair_displacement x Lx Ly i j =
       ((if 0 < Lx then minimum_image (x ! (i * 3) - x ! (j * 3)) Lx
         else x ! (i * 3) - x ! (j * 3)),
        (if 0 < Ly then minimum_image (x ! (i * 3 + 1) - x ! (j * 3 + 1)) Ly
         else x ! (i * 3 + 1) - x ! (j * 3 + 1)),
        x ! (i * 3 + 2) - x ! (j * 3 + 2))"
    by (simp add: pair_displacement_def Let_def)
  have offx: "Lx \<le> 0 \<longrightarrow> fst (pair_displacement x Lx Ly i j) = x ! (i * 3) - x ! (j * 3)"
    using double_le_zero_not_pos [of Lx] by (auto simp: disp)
  have offy: "Ly \<le> 0 \<longrightarrow>
        fst (snd (pair_displacement x Lx Ly i j)) = x ! (i * 3 + 1) - x ! (j * 3 + 1)"
    using double_le_zero_not_pos [of Ly] by (auto simp: disp)
  from wrap rounded disp offx offy show ?thesis by blast
qed

theorem minimum_image_wrap_witness:
  "(0::real) < 1 \<and> \<bar>(3 / 4) / (1::real)\<bar> + 1 / 2 < 2147483648
   \<and> \<bar>(3 / 4) / (1::real)\<bar> + 1 / 2 \<le> 2147483647 \<and> \<bar>3 / 4 :: real\<bar> + 1 \<le> 2 ^ 1023
   \<and> (\<exists>k::int. minimum_image (Fin (3 / 4)) (Fin 1) = Fin (3 / 4 - real_of_int k * 1)
               \<and> \<bar>3 / 4 - real_of_int k * 1\<bar> \<le> (1::real) / 2)
   \<and> (\<exists>(k::int) d'. minimum_image_binary64 False (Fin (3 / 4)) (Fin 1) = Fin d'
               \<and> \<bar>d' - (3 / 4 - real_of_int k * 1)\<bar> \<le> (\<bar>3 / 4\<bar> + 1) / 2 ^ 50 + 1 / 2 ^ 1073
               \<and> \<bar>d'\<bar> \<le> 1 / 2 + (\<bar>3 / 4\<bar> + 1) / 2 ^ 50 + 1 / 2 ^ 1073)
   \<and> Fin 0 \<le> (0::double)
   \<and> fst (pair_displacement [Fin 5, Fin 0, Fin 2, Fin 1, Fin 4, Fin 3] (Fin 0) (Fin 0) 0 1)
       = Fin 4
   \<and> fst (snd (pair_displacement [Fin 5, Fin 0, Fin 2, Fin 1, Fin 4, Fin 3] (Fin 0) (Fin 0) 0 1))
       = Fin (- 4)"
proof -
  have h: "(0::real) < 1" "\<bar>(3 / 4) / (1::real)\<bar> + 1 / 2 < 2147483648"
    "\<bar>(3 / 4) / (1::real)\<bar> + 1 / 2 \<le> 2147483647" "\<bar>3 / 4 :: real\<bar> + 1 \<le> 2 ^ 1023"
    "Fin 0 \<le> (0::double)"
    by (simp_all add: zero_double_def)
  note w = minimum_image_wrap [of 1 "3 / 4" False "[Fin 5, Fin 0, Fin 2, Fin 1, Fin 4, Fin 3]"
      "Fin 0" "Fin 0" 0 1]
  have e1: "\<exists>k::int. minimum_image (Fin (3 / 4)) (Fin 1) = Fin (3 / 4 - real_of_int k * 1)
               \<and> \<bar>3 / 4 - real_of_int k * 1\<bar> \<le> (1::real) / 2"
    using w h(1,2) by blast
  have e2: "\<exists>(k::int) d'. minimum_image_binary64 False (Fin (3 / 4)) (Fin 1) = Fin d'
               \<and> \<bar>d' - (3 / 4 - real_of_int k * 1)\<bar> \<le> (\<bar>3 / 4\<bar> + 1) / 2 ^ 50 + 1 / 2 ^ 1073
               \<and> \<bar>d'\<bar> \<le> 1 / 2 + (\<bar>3 / 4\<bar> + 1) / 2 ^ 50 + 1 / 2 ^ 1073"
    using w h(1,3,4) by blast
  have e3: "fst (pair_displacement [Fin 5, Fin 0, Fin 2, Fin 1, Fin 4, Fin 3] (Fin 0) (Fin 0) 0 1)
       = Fin 4"
    and e4: "fst (snd (pair_displacement [Fin 5, Fin 0, Fin 2, Fin 1, Fin 4, Fin 3]
          (Fin 0) (Fin 0) 0 1)) = Fin (- 4)"
    using w h(5) by (simp_all add: zero_double_def minus_double_def)
  from h e1 e2 e3 e4 show ?thesis
    by (intro conjI)
qed

text \<open>
  Without the bound on \<open>d / L\<close> the conversion to \<^verbatim>\<open>int\<close> saturates: for
  \<open>d = 3 * 10^9\<close> and \<open>L = 1\<close> the kernel subtracts \<open>2^31 - 1\<close> periods only, with or
  without rounding (every intermediate value is a double). Within the bound the rounding
  alone takes the result out of \<open>[-L / 2, L / 2]\<close>: for \<open>d = 1.5 - 2^-52\<close>
  (\<^verbatim>\<open>1.4999999999999998\<close>) and \<open>L = 3\<close> the quotient rounds to \<open>0.5 - 2^-54\<close>, the sum
  with 0.5 is a tie and rounds to 1, and the result is \<open>-(1.5 + 2^-52)\<close>
  (\<^verbatim>\<open>-1.5000000000000002\<close>), where the exact quotient \<open>0.99999999999999993\<close> truncates
  to 0 and leaves \<open>d\<close>.
\<close>

theorem minimum_image_wrap_counterexample:
  "(0::real) < 1 \<and> minimum_image (Fin 3000000000) (Fin 1) = Fin 852516353
   \<and> minimum_image_binary64 False (Fin 3000000000) (Fin 1) = Fin 852516353
   \<and> minimum_image_binary64 True (Fin 3000000000) (Fin 1) = Fin 852516353
   \<and> \<not> \<bar>852516353\<bar> \<le> (1::real) / 2
   \<and> (0::real) < 3 \<and> \<bar>(3 / 2 - 1 / 2 ^ 52) / (3::real)\<bar> + 1 / 2 < 2147483648
   \<and> minimum_image (Fin (3 / 2 - 1 / 2 ^ 52)) (Fin 3) = Fin (3 / 2 - 1 / 2 ^ 52)
   \<and> minimum_image_binary64 False (Fin (3 / 2 - 1 / 2 ^ 52)) (Fin 3)
       = Fin (- (3 / 2 + 1 / 2 ^ 52))
   \<and> minimum_image_binary64 True (Fin (3 / 2 - 1 / 2 ^ 52)) (Fin 3)
       = Fin (- (3 / 2 + 1 / 2 ^ 52))
   \<and> \<not> \<bar>- (3 / 2 + 1 / 2 ^ 52)\<bar> \<le> (3::real) / 2"
proof -
  have sat: "minimum_image (Fin 3000000000) (Fin 1) = Fin 852516353"
    by (simp add: minimum_image_def int2double_def bool2int_def zero_double_def
        minus_double_def trunc_def INT_MAX_def INT_MIN_def)
  have exact: "minimum_image (Fin (3 / 2 - 1 / 2 ^ 52)) (Fin 3) = Fin (3 / 2 - 1 / 2 ^ 52)"
    by (simp add: minimum_image_def int2double_def bool2int_def zero_double_def
        minus_double_def trunc_def INT_MAX_def INT_MIN_def)
  have "(0::real) < 1" "\<not> \<bar>852516353\<bar> \<le> (1::real) / 2" "(0::real) < 3"
    "\<bar>(3 / 2 - 1 / 2 ^ 52) / (3::real)\<bar> + 1 / 2 < 2147483648"
    "\<not> \<bar>- (3 / 2 + 1 / 2 ^ 52)\<bar> \<le> (3::real) / 2"
    by simp_all
  with sat exact wrap_saturation_example [of False] wrap_saturation_example [of True]
    wrap_rounding_example [of False] wrap_rounding_example [of True]
  show ?thesis
    by (intro conjI)
qed

lemma reshape_Nil: "reshape [] = []"
  by (simp add: reshape_def)

lemmas eval_terms =
  one_blob_term_def blob_blob_term_def wall_penalty_term_def above_wall_def height_def
  one_blob_potential_def blob_blob_potential_def pair_step_def pair_displacement_def
  example_kwargs_def reshape_Cons reshape_Nil Let_def minus_double_def zero_double_def

theorem behind_wall_pairs_omitted_witness:
  "length [NaN, NaN] = length blobs_behind \<and> 0 < length blobs_behind
   \<and> height blobs_behind 0 \<le> blob_radius example_kwargs
   \<and> output_array blobs_behind example_kwargs [NaN, NaN] ! 0 = Fin 200000
   \<and> compute_total_energy () blobs_behind example_kwargs [NaN, NaN]
        = Fin (200002 + exp (- 1))"
proof -
  have h: "length [NaN, NaN] = length blobs_behind" "0 < length blobs_behind"
      "height blobs_behind 0 \<le> blob_radius example_kwargs"
    by (simp_all add: blobs_behind_def eval_terms)
  have two: "[0..<length blobs_behind] = [0, 1]"
    by (simp add: blobs_behind_def upt_rec)
  show ?thesis
    using h behind_wall_pairs_omitted [OF h, of "()"]
    by (simp add: two) (simp add: blobs_behind_def eval_terms)
qed

lemma spec_total_energy_list:
  "spec_total_energy r kw =
     (\<Sum>i\<leftarrow>[0..<length r]. one_blob_term r kw i)
     + (\<Sum>i\<leftarrow>[0..<length r]. \<Sum>j\<leftarrow>[i + 1..<length r]. blob_blob_term r kw i j)"
proof -
  let ?n = "length r"
  have "(\<Sum>i\<leftarrow>[0..<?n]. \<Sum>j\<leftarrow>[i + 1..<?n]. blob_blob_term r kw i j)
           = (\<Sum>i\<in>{0..<?n}. \<Sum>j\<in>{i + 1..<?n}. blob_blob_term r kw i j)"
    by (simp add: interv_sum_list_conv_sum_set_nat)
  also have "\<dots> = (\<Sum>(i, j)\<in>(SIGMA i:{0..<?n}. {i + 1..<?n}). blob_blob_term r kw i j)"
    by (rule sum.Sigma) simp_all
  also have "(SIGMA i:{0..<?n}. {i + 1..<?n}) = {(i, j). i < j \<and> j < ?n}"
    by auto
  finally show ?thesis
    by (simp add: spec_total_energy_def interv_sum_list_conv_sum_set_nat atLeast0LessThan)
qed

text \<open>
  C3, as amended. When every blob is above the wall (\<open>z > blob_radius\<close>), the energy that
  the evaluator returns is the sum of the one-blob terms (gravity and wall) of all blobs
  plus the sum of the blob-blob terms over the pairs \<open>i < j\<close>: every unordered pair is
  counted once, with no factor 1/2.
\<close>

theorem total_energy_each_pair_once:
  assumes "length mem = length r"
      and "\<forall>i<length r. above_wall r kw i"
  shows "blobs_potential r kw mem = spec_total_energy r kw
       \<and> compute_total_energy bs r kw mem = spec_total_energy r kw"
  using total_all_above [OF assms] by (simp add: compute_total_energy_blobs)

theorem total_energy_each_pair_once_witness:
  "length [NaN, NaN] = length blobs_above
   \<and> above_wall blobs_above example_kwargs 0 \<and> above_wall blobs_above example_kwargs 1
   \<and> compute_total_energy () blobs_above example_kwargs [NaN, NaN]
        = spec_total_energy blobs_above example_kwargs
   \<and> spec_total_energy blobs_above example_kwargs = Fin (5 + 2 * exp (- 1) + exp (- 2) / 2)"
proof -
  have len: "length [NaN, NaN] = length blobs_above"
    by (simp add: blobs_above_def)
  have above: "\<forall>i<length blobs_above. above_wall blobs_above example_kwargs i"
    by (simp add: blobs_above_def eval_terms less_Suc_eq)
  have two: "[0..<length blobs_above] = [0, 1]" "length blobs_above = 2"
    by (simp_all add: blobs_above_def upt_rec)
  have val: "spec_total_energy blobs_above example_kwargs
               = Fin (5 + 2 * exp (- 1) + exp (- 2) / 2)"
    unfolding spec_total_energy_list two
    by (simp add: upt_rec) (simp add: blobs_above_def eval_terms)
  have each: "above_wall blobs_above example_kwargs 0" "above_wall blobs_above example_kwargs 1"
    using above by (simp_all add: two)
  from len each total_energy_each_pair_once [OF len above, of "()"] val
  show ?thesis by simp
qed

text \<open>
  With the first blob behind the wall the evaluator returns the penalty of that blob
  and the one-blob term of the second, which is not the sum that the specification
  describes: the one-blob term of the first blob and the pair term are not in it.
\<close>

theorem total_energy_each_pair_once_counterexample:
  "compute_total_energy () blobs_behind example_kwargs [NaN, NaN]
     = Fin (200002 + exp (- 1))
   \<and> spec_total_energy blobs_behind example_kwargs
     = Fin (2 + exp (- 1) - exp 1 + exp (- 2) / 2)
   \<and> compute_total_energy () blobs_behind example_kwargs [NaN, NaN]
     \<noteq> spec_total_energy blobs_behind example_kwargs"
proof -
  have len: "length [NaN, NaN] = length blobs_behind"
    by (simp add: blobs_behind_def)
  have two: "[0..<length blobs_behind] = [0, 1]" "length blobs_behind = 2"
    by (simp_all add: blobs_behind_def upt_rec)
  have actual: "compute_total_energy () blobs_behind example_kwargs [NaN, NaN]
     = Fin (200002 + exp (- 1))"
    unfolding compute_total_energy_blobs blobs_potential_terms [OF len] two
    by (simp add: upt_rec) (simp add: blobs_behind_def eval_terms)
  have spec: "spec_total_energy blobs_behind example_kwargs
     = Fin (2 + exp (- 1) - exp 1 + exp (- 2) / 2)"
    unfolding spec_total_energy_list two
    by (simp add: upt_rec) (simp add: blobs_behind_def eval_terms)
  have "exp (- 2) < (1::real)" by simp
  moreover have "0 < exp (1::real)" by simp
  ultimately have "(200002::real) + exp (- 1) \<noteq> 2 + exp (- 1) - exp 1 + exp (- 2) / 2"
    by linarith
  with actual spec show ?thesis by simp
qed

subsection \<open>Exchanging two blobs\<close>

lemma double_uminus_add: "- (a + b) = - a + - (b::double)"
  by (cases a; cases b; simp)

lemma double_uminus_uminus: "- (- a) = (a::double)"
  by (cases a; simp)

lemma double_diff_swap: "b - a = - (a - (b::double))"
  by (simp add: minus_double_def double_uminus_add double_uminus_uminus add.commute)

lemma double_uminus_square: "(- a) * (- a) = a * (a::double)"
  by (cases a; simp)

text \<open>The terms of blob \<open>k\<close> depend on row \<open>k\<close> of the input only.\<close>

lemma one_blob_term_row:
  assumes "k < length r" and "k' < length r'" and "r' ! k' = r ! k"
  shows "one_blob_term r' kw k' = one_blob_term r kw k"
  using nth_reshape [OF assms(1)] nth_reshape [OF assms(2)] assms(3)
  by (simp add: one_blob_term_def)

lemma above_wall_row:
  assumes "k < length r" and "k' < length r'" and "r' ! k' = r ! k"
  shows "above_wall r' kw k' = above_wall r kw k"
  using nth_reshape [OF assms(1)] nth_reshape [OF assms(2)] assms(3)
  by (simp add: above_wall_def height_def)

lemma pair_displacement_rows:
  assumes "a < length r" and "b < length r"
  shows "pair_displacement (reshape r) Lx Ly a b =
     ((if 0 < Lx then minimum_image (fst (r ! a) - fst (r ! b)) Lx
       else fst (r ! a) - fst (r ! b)),
      (if 0 < Ly then minimum_image (fst (snd (r ! a)) - fst (snd (r ! b))) Ly
       else fst (snd (r ! a)) - fst (snd (r ! b))),
      snd (snd (r ! a)) - snd (snd (r ! b)))"
  using nth_reshape [OF assms(1)] nth_reshape [OF assms(2)]
  by (simp add: pair_displacement_def Let_def)

lemma blob_blob_term_rows:
  assumes "a < length r" and "b < length r" and "a \<noteq> b"
      and "a' < length r'" and "b' < length r'" and "a' \<noteq> b'"
      and "r' ! a' = r ! a" and "r' ! b' = r ! b"
  shows "blob_blob_term r' kw a' b' = blob_blob_term r kw a b"
  using assms
  by (simp add: blob_blob_term_def pair_step_def pair_displacement_rows
      blob_blob_potential_def)

lemma blob_blob_term_sym:
  assumes a: "a < length r" and b: "b < length r" and ab: "a \<noteq> b"
      and fits: "wrap_fits r kw"
  shows "blob_blob_term r kw b a = blob_blob_term r kw a b"
proof -
  let ?Lx = "fst (periodic_length kw)" and ?Ly = "fst (snd (periodic_length kw))"
  let ?dx = "fst (r ! a) - fst (r ! b)" and ?dy = "fst (snd (r ! a)) - fst (snd (r ! b))"
  let ?dz = "snd (snd (r ! a)) - snd (snd (r ! b))"
  have fx: "0 < ?Lx \<Longrightarrow> fits_int ?dx ?Lx" and fy: "0 < ?Ly \<Longrightarrow> fits_int ?dy ?Ly"
    using fits a b by (simp_all add: wrap_fits_def)
  have x: "(if 0 < ?Lx then minimum_image (fst (r ! b) - fst (r ! a)) ?Lx
            else fst (r ! b) - fst (r ! a))
         = - (if 0 < ?Lx then minimum_image ?dx ?Lx else ?dx)"
  proof -
    have sw: "fst (r ! b) - fst (r ! a) = - ?dx" by (rule double_diff_swap)
    show ?thesis
    proof (cases "0 < ?Lx")
      case True
      from minimum_image_uminus [OF True fx [OF True]] True show ?thesis
        unfolding sw by simp
    next
      case False
      then show ?thesis unfolding sw by simp
    qed
  qed
  have y: "(if 0 < ?Ly then minimum_image (fst (snd (r ! b)) - fst (snd (r ! a))) ?Ly
            else fst (snd (r ! b)) - fst (snd (r ! a)))
         = - (if 0 < ?Ly then minimum_image ?dy ?Ly else ?dy)"
  proof -
    have sw: "fst (snd (r ! b)) - fst (snd (r ! a)) = - ?dy" by (rule double_diff_swap)
    show ?thesis
    proof (cases "0 < ?Ly")
      case True
      from minimum_image_uminus [OF True fy [OF True]] True show ?thesis
        unfolding sw by simp
    next
      case False
      then show ?thesis unfolding sw by simp
    qed
  qed
  have z: "snd (snd (r ! b)) - snd (snd (r ! a)) = - ?dz"
    by (rule double_diff_swap)
  show ?thesis
    using ab
    unfolding blob_blob_term_def pair_step_def pair_displacement_rows [OF a b]
      pair_displacement_rows [OF b a] x y z
    by (simp add: blob_blob_potential_def double_uminus_square)
qed

lemma sum_list_thread_terms:
  "sum_list (thread_terms r kw i) =
     (if above_wall r kw i
      then one_blob_term r kw i + (\<Sum>j\<leftarrow>[i + 1..<length r]. blob_blob_term r kw i j)
      else wall_penalty_term r kw i)"
  by (simp add: thread_terms_def)

lemma sum_list_concat_map:
  "sum_list (concat (map f xs)) = (\<Sum>x\<leftarrow>xs. sum_list (f x :: double list))"
  by (induction xs) simp_all

lemma compute_total_energy_terms:
  assumes "length mem = length r"
  shows "compute_total_energy bs r kw mem = sum_list (energy_terms r kw)"
  unfolding compute_total_energy_blobs blobs_potential_terms [OF assms] energy_terms_def
    sum_list_concat_map sum_list_thread_terms ..

lemma mset_map_sum: "mset (map f xs) = (\<Sum>x\<leftarrow>xs. {#f x#})"
  by (induction xs) simp_all

lemma mset_thread_terms:
  assumes "above_wall r kw i"
  shows "mset (thread_terms r kw i)
     = {#one_blob_term r kw i#} + (\<Sum>j\<leftarrow>[i + 1..<length r]. {#blob_blob_term r kw i j#})"
  unfolding thread_terms_def mset_map_sum [symmetric] using assms by simp

lemma mset_energy_terms:
  assumes "\<forall>k<length r. above_wall r kw k"
  shows "mset (energy_terms r kw) =
     (\<Sum>i<length r. {#one_blob_term r kw i#})
     + (\<Sum>(a, b)\<in>{(a, b). a < b \<and> b < length r}. {#blob_blob_term r kw a b#})"
proof -
  let ?n = "length r"
  have "mset (energy_terms r kw) = (\<Sum>i\<leftarrow>[0..<?n]. mset (thread_terms r kw i))"
    by (simp only: energy_terms_def mset_concat map_map comp_def)
  also have "\<dots> = (\<Sum>i\<leftarrow>[0..<?n]. {#one_blob_term r kw i#}
                       + (\<Sum>j\<leftarrow>[i + 1..<?n]. {#blob_blob_term r kw i j#}))"
  proof (rule arg_cong [where f = sum_list], rule map_cong [OF refl])
    fix i assume "i \<in> set [0..<?n]"
    then have "above_wall r kw i" using assms by simp
    then show "mset (thread_terms r kw i) = {#one_blob_term r kw i#}
                       + (\<Sum>j\<leftarrow>[i + 1..<?n]. {#blob_blob_term r kw i j#})"
      by (rule mset_thread_terms)
  qed
  also have "\<dots> = (\<Sum>i\<in>{0..<?n}. {#one_blob_term r kw i#}
                       + (\<Sum>j\<in>{i + 1..<?n}. {#blob_blob_term r kw i j#}))"
    by (simp only: interv_sum_list_conv_sum_set_nat set_upt)
  also have "\<dots> = (\<Sum>i\<in>{0..<?n}. {#one_blob_term r kw i#})
                 + (\<Sum>i\<in>{0..<?n}. \<Sum>j\<in>{i + 1..<?n}. {#blob_blob_term r kw i j#})"
    by (rule sum.distrib)
  also have "(\<Sum>i\<in>{0..<?n}. \<Sum>j\<in>{i + 1..<?n}. {#blob_blob_term r kw i j#})
      = (\<Sum>(i, j)\<in>(SIGMA i:{0..<?n}. {i + 1..<?n}). {#blob_blob_term r kw i j#})"
    by (rule sum.Sigma) simp_all
  also have "(SIGMA i:{0..<?n}. {i + 1..<?n}) = {(i, j). i < j \<and> j < ?n}"
    by auto
  finally show ?thesis
    by (simp only: atLeast0LessThan)
qed


lemma swap_terms_sum:
  fixes g :: "double \<Rightarrow> 'a::comm_monoid_add"
  assumes i: "i < length r" and j: "j < length r" and fits: "wrap_fits r kw"
  shows "(\<Sum>k<length r. g (one_blob_term (swap_blobs r i j) kw k))
           = (\<Sum>k<length r. g (one_blob_term r kw k))"
    and "(\<Sum>(a, b)\<in>{(a, b). a < b \<and> b < length r}. g (blob_blob_term (swap_blobs r i j) kw a b))
           = (\<Sum>(a, b)\<in>{(a, b). a < b \<and> b < length r}. g (blob_blob_term r kw a b))"
proof -
  let ?n = "length r"
  let ?r' = "swap_blobs r i j"
  define p where "p k = (if k = j then i else if k = i then j else k)" for k
  let ?P = "{(a, b). a < b \<and> b < ?n}"
  define f where "f = (\<lambda>(a, b). if p a < p b then (p a, p b) else (p b, p a))"
  have len: "length ?r' = ?n"
    by (simp add: swap_blobs_def)
  have pp: "p (p k) = k" for k
    by (simp add: p_def)
  have pn: "p k < ?n" if "k < ?n" for k
    using that i j by (simp add: p_def)
  have pinj: "p a \<noteq> p b" if "a \<noteq> b" for a b
    using that pp by metis
  have row: "?r' ! k = r ! p k" if "k < ?n" for k
    using that i j by (auto simp: swap_blobs_def p_def nth_list_update)
  have one: "one_blob_term ?r' kw k = one_blob_term r kw (p k)" if "k < ?n" for k
    using that by (intro one_blob_term_row) (simp_all add: len pn row)
  have pair: "blob_blob_term ?r' kw a b = blob_blob_term r kw (p a) (p b)"
    if "a < ?n" "b < ?n" "a \<noteq> b" for a b
    using that by (intro blob_blob_term_rows) (simp_all add: len pn row pinj)
  have "(\<Sum>k<?n. g (one_blob_term ?r' kw k)) = (\<Sum>k<?n. g (one_blob_term r kw (p k)))"
    by (rule sum.cong) (simp_all add: one)
  also have "\<dots> = (\<Sum>k<?n. g (one_blob_term r kw k))"
    by (rule sum.reindex_bij_witness [where i = p and j = p]) (simp_all add: pp pn)
  finally show "(\<Sum>k<?n. g (one_blob_term ?r' kw k)) = (\<Sum>k<?n. g (one_blob_term r kw k))" .
  have fP: "f q \<in> ?P" if "q \<in> ?P" for q
  proof -
    obtain a b where q: "q = (a, b)" by (cases q)
    with that have "a < b" "b < ?n" by simp_all
    then have "p a < ?n" "p b < ?n" "p a \<noteq> p b"
      by (simp_all add: pn pinj)
    then show ?thesis
      by (auto simp: q f_def)
  qed
  have ff: "f (f q) = q" if "q \<in> ?P" for q
  proof -
    obtain a b where q: "q = (a, b)" by (cases q)
    with that have "a < b" by simp
    then show ?thesis
      by (auto simp: q f_def pp)
  qed
  have fterm: "(case f q of (a, b) \<Rightarrow> g (blob_blob_term r kw a b))
                 = (case q of (a, b) \<Rightarrow> g (blob_blob_term ?r' kw a b))" if "q \<in> ?P" for q
  proof -
    obtain a b where q: "q = (a, b)" by (cases q)
    with that have ab: "a < b" "b < ?n" "a < ?n" "a \<noteq> b" by simp_all
    then have pab: "p a < ?n" "p b < ?n" "p a \<noteq> p b"
      by (simp_all add: pn pinj)
    show ?thesis
    proof (cases "p a < p b")
      case True
      then show ?thesis
        using ab by (simp add: q f_def pair)
    next
      case False
      have "blob_blob_term r kw (p b) (p a) = blob_blob_term r kw (p a) (p b)"
        using pab fits by (intro blob_blob_term_sym) simp_all
      with False show ?thesis
        using ab by (simp add: q f_def pair)
    qed
  qed
  show "(\<Sum>(a, b)\<in>?P. g (blob_blob_term ?r' kw a b))
             = (\<Sum>(a, b)\<in>?P. g (blob_blob_term r kw a b))"
    by (rule sum.reindex_bij_witness [where i = f and j = f]) (simp_all only: ff fP fterm)
qed

lemma above_wall_swap:
  assumes i: "i < length r" and j: "j < length r"
      and above: "\<forall>k<length r. above_wall r kw k"
  shows "\<forall>k<length (swap_blobs r i j). above_wall (swap_blobs r i j) kw k"
proof (intro allI impI)
  let ?r' = "swap_blobs r i j"
  fix k assume k: "k < length ?r'"
  then have kn: "k < length r" by (simp add: swap_blobs_def)
  let ?m = "if k = j then i else if k = i then j else k"
  have m: "?m < length r" using kn i j by simp
  have "?r' ! k = r ! ?m"
    using kn i j by (auto simp: swap_blobs_def nth_list_update)
  from above_wall_row [OF m k this] above m show "above_wall ?r' kw k"
    by blast
qed

lemma mset_energy_terms_swap:
  assumes i: "i < length r" and j: "j < length r"
      and above: "\<forall>k<length r. above_wall r kw k"
      and fits: "wrap_fits r kw"
  shows "mset (energy_terms (swap_blobs r i j) kw) = mset (energy_terms r kw)"
proof -
  have len: "length (swap_blobs r i j) = length r"
    by (simp add: swap_blobs_def)
  show ?thesis
    unfolding mset_energy_terms [OF above] mset_energy_terms [OF above_wall_swap [OF i j above]]
      len
    by (simp only: swap_terms_sum [OF i j fits, where g = "\<lambda>x. {#x#}"])
qed

text \<open>
  With exact sums, as in this model, two lists with the same terms have the same sum, so
  that the two totals are then equal. In binary64 the sum depends on the order of the
  additions, and the two totals can differ in the last digits.
\<close>

lemma exact_sum_terms_swap:
  assumes "length mem = length r"
      and "i < length r" and "j < length r"
      and "\<forall>k<length r. above_wall r kw k"
      and "wrap_fits r kw"
  shows "sum_list (energy_terms (swap_blobs r i j) kw) = sum_list (energy_terms r kw)"
  using arg_cong [OF mset_energy_terms_swap [OF assms(2-5)], of sum_mset]
  by (simp only: sum_mset_sum_list)

text \<open>
  C4, as amended. If every blob is above the wall and, along each periodic axis, the
  displacements of all pairs of blobs are finite with \<open>|d / L| + 1/2 \<le> 2^31 - 1\<close>, then
  exchanging the coordinates of two blobs of the input array leaves the terms that the
  evaluator adds up the same, each as often as before; only their order changes. The
  returned total is the sum of these terms, so the exchange changes it by the rounding
  of the additions at most.
\<close>

theorem swap_blobs_energy:
  assumes len: "length mem = length r"
      and i: "i < length r" and j: "j < length r"
      and above: "\<forall>k<length r. above_wall r kw k"
      and fits: "wrap_fits r kw"
  shows "mset (energy_terms (swap_blobs r i j) kw) = mset (energy_terms r kw)
       \<and> compute_total_energy bs r kw mem = sum_list (energy_terms r kw)
       \<and> compute_total_energy bs (swap_blobs r i j) kw mem
           = sum_list (energy_terms (swap_blobs r i j) kw)"
proof -
  have len': "length mem = length (swap_blobs r i j)"
    using len by (simp add: swap_blobs_def)
  show ?thesis
    by (simp only: mset_energy_terms_swap [OF i j above fits]
        compute_total_energy_terms [OF len] compute_total_energy_terms [OF len'] simp_thms)
qed

theorem swap_blobs_energy_witness:
  "length [NaN, NaN] = length blobs_above \<and> 0 < length blobs_above \<and> 1 < length blobs_above
   \<and> above_wall blobs_above periodic_kwargs 0 \<and> above_wall blobs_above periodic_kwargs 1
   \<and> wrap_fits blobs_above periodic_kwargs
   \<and> swap_blobs blobs_above 0 1 = [(Fin 0, Fin 0, Fin 3), (Fin 0, Fin 0, Fin 2)]
   \<and> energy_terms blobs_above periodic_kwargs
       = [Fin (2 + exp (- 1)), Fin (exp (- 1)), Fin (3 + exp (- 2) / 2)]
   \<and> energy_terms (swap_blobs blobs_above 0 1) periodic_kwargs
       = [Fin (3 + exp (- 2) / 2), Fin (exp (- 1)), Fin (2 + exp (- 1))]
   \<and> mset (energy_terms (swap_blobs blobs_above 0 1) periodic_kwargs)
       = mset (energy_terms blobs_above periodic_kwargs)
   \<and> compute_total_energy () blobs_above periodic_kwargs [NaN, NaN]
       = sum_list (energy_terms blobs_above periodic_kwargs)
   \<and> compute_total_energy () (swap_blobs blobs_above 0 1) periodic_kwargs [NaN, NaN]
       = sum_list (energy_terms (swap_blobs blobs_above 0 1) periodic_kwargs)"
proof -
  have len: "length [NaN, NaN] = length blobs_above"
    and i: "0 < length blobs_above" and j: "1 < length blobs_above"
    by (simp_all add: blobs_above_def)
  have each: "above_wall blobs_above periodic_kwargs 0" "above_wall blobs_above periodic_kwargs 1"
    by (simp_all add: blobs_above_def periodic_kwargs_def eval_terms)
  then have above: "\<forall>k<length blobs_above. above_wall blobs_above periodic_kwargs k"
    by (simp add: blobs_above_def less_Suc_eq)
  have fits: "wrap_fits blobs_above periodic_kwargs"
    by (simp add: wrap_fits_def blobs_above_def periodic_kwargs_def example_kwargs_def
        fits_int_def minus_double_def less_Suc_eq)
  have sw: "swap_blobs blobs_above 0 1 = [(Fin 0, Fin 0, Fin 3), (Fin 0, Fin 0, Fin 2)]"
    by (simp add: swap_blobs_def blobs_above_def)
  have wrap: "minimum_image (Fin 0) (Fin 10) = Fin 0"
    by (simp add: minimum_image_def int2double_def bool2int_def zero_double_def
        minus_double_def trunc_def INT_MAX_def INT_MIN_def)
  have before: "energy_terms blobs_above periodic_kwargs
       = [Fin (2 + exp (- 1)), Fin (exp (- 1)), Fin (3 + exp (- 2) / 2)]"
    by (simp add: energy_terms_def thread_terms_def upt_rec blobs_above_def periodic_kwargs_def)
      (simp add: eval_terms wrap)
  have after: "energy_terms (swap_blobs blobs_above 0 1) periodic_kwargs
       = [Fin (3 + exp (- 2) / 2), Fin (exp (- 1)), Fin (2 + exp (- 1))]"
    unfolding sw
    by (simp add: energy_terms_def thread_terms_def upt_rec periodic_kwargs_def)
      (simp add: eval_terms wrap)
  from swap_blobs_energy [OF len i j above fits, of "()"]
  have "mset (energy_terms (swap_blobs blobs_above 0 1) periodic_kwargs)
       = mset (energy_terms blobs_above periodic_kwargs)
   \<and> compute_total_energy () blobs_above periodic_kwargs [NaN, NaN]
       = sum_list (energy_terms blobs_above periodic_kwargs)
   \<and> compute_total_energy () (swap_blobs blobs_above 0 1) periodic_kwargs [NaN, NaN]
       = sum_list (energy_terms (swap_blobs blobs_above 0 1) periodic_kwargs)" .
  with len i j each fits sw before after show ?thesis
    by (simp only: simp_thms)
qed

text \<open>
  With the first blob behind the wall the exchange changes the energy: before, the only
  thread that runs the pair loop is that of the second blob, which has no later partner;
  after, the blob above the wall comes first and its thread adds the pair term.
\<close>

theorem swap_blobs_energy_counterexample:
  "energy_terms blobs_behind example_kwargs = [Fin 200000, Fin (2 + exp (- 1))]
   \<and> energy_terms (swap_blobs blobs_behind 0 1) example_kwargs
     = [Fin (2 + exp (- 1)), Fin (exp (- 2) / 2), Fin 200000]
   \<and> compute_total_energy () blobs_behind example_kwargs [NaN, NaN]
     = Fin (200002 + exp (- 1))
   \<and> compute_total_energy () (swap_blobs blobs_behind 0 1) example_kwargs [NaN, NaN]
     = Fin (200002 + exp (- 1) + exp (- 2) / 2)
   \<and> compute_total_energy () (swap_blobs blobs_behind 0 1) example_kwargs [NaN, NaN]
     \<noteq> compute_total_energy () blobs_behind example_kwargs [NaN, NaN]"
proof -
  have terms: "energy_terms blobs_behind example_kwargs = [Fin 200000, Fin (2 + exp (- 1))]"
    by (simp add: energy_terms_def thread_terms_def upt_rec blobs_behind_def)
      (simp add: eval_terms)
  have terms': "energy_terms (swap_blobs blobs_behind 0 1) example_kwargs
     = [Fin (2 + exp (- 1)), Fin (exp (- 2) / 2), Fin 200000]"
    by (simp add: energy_terms_def thread_terms_def upt_rec blobs_behind_def swap_blobs_def)
      (simp add: eval_terms)
  have sw: "swap_blobs blobs_behind 0 1 = [(Fin 0, Fin 0, Fin 2), (Fin 0, Fin 0, Fin 0)]"
    by (simp add: swap_blobs_def blobs_behind_def)
  have len: "length [NaN, NaN] = length blobs_behind"
    "length [NaN, NaN] = length [(Fin 0, Fin 0, Fin 2), (Fin 0, Fin 0, Fin (0::real))]"
    by (simp_all add: blobs_behind_def)
  have two: "[0..<length blobs_behind] = [0, 1]" "length blobs_behind = 2"
    by (simp_all add: blobs_behind_def upt_rec)
  have before: "compute_total_energy () blobs_behind example_kwargs [NaN, NaN]
     = Fin (200002 + exp (- 1))"
    unfolding compute_total_energy_blobs blobs_potential_terms [OF len(1)] two
    by (simp add: upt_rec) (simp add: blobs_behind_def eval_terms)
  have after: "compute_total_energy () (swap_blobs blobs_behind 0 1) example_kwargs [NaN, NaN]
     = Fin (200002 + exp (- 1) + exp (- 2) / 2)"
    unfolding sw compute_total_energy_blobs blobs_potential_terms [OF len(2)]
    by (simp add: upt_rec) (simp add: eval_terms)
  have "0 < exp (- 2 :: real)" by simp
  then have "(200002::real) + exp (- 1) + exp (- 2) / 2 \<noteq> 200002 + exp (- 1)"
    by linarith
  with before after terms terms' show ?thesis by simp
qed

subsection \<open>Coincident blobs\<close>















section \<open>Properties of the sampler\<close>

lemma slice_assign_in_range:
  "offset + length v \<le> length a \<Longrightarrow>
   slice_assign a offset v = Inr (take offset a @ v @ drop (offset + length v) a)"
  by (simp add: slice_assign_def)

lemma length_get_r_vectors: "length (get_r_vectors ops b loc ori) = Nblobs b"
  by (simp add: get_r_vectors_def Nblobs_def)

lemma disturb_frame:
  "location (disturb ops prm env i b) = location b"
  "orientation (disturb ops prm env i b) = orientation b"
  "reference_configuration (disturb ops prm env i b) = reference_configuration b"
  by (simp_all add: disturb_def Let_def)

lemma Nblobs_disturb: "Nblobs (disturb ops prm env i b) = Nblobs b"
  by (simp add: Nblobs_def disturb_frame)

lemma disturb_bodies_frame:
  "map location (disturb_bodies ops prm env bs i) = map location bs"
  "map orientation (disturb_bodies ops prm env bs i) = map orientation bs"
  "map reference_configuration (disturb_bodies ops prm env bs i)
     = map reference_configuration bs"
  "map Nblobs (disturb_bodies ops prm env bs i) = map Nblobs bs"
  by (induction bs arbitrary: i) (simp_all add: disturb_frame Nblobs_disturb)

lemma length_disturb_bodies: "length (disturb_bodies ops prm env bs i) = length bs"
  by (induction bs arbitrary: i) simp_all

lemma disturb_loop_result:
  assumes "k + (\<Sum>b\<leftarrow>bs. Nblobs b) \<le> length r"
  shows "disturb_loop ops prm env bs i k r
           = Inr (disturb_bodies ops prm env bs i,
                  take k r @ proposed_positions ops (disturb_bodies ops prm env bs i)
                    @ drop (k + (\<Sum>b\<leftarrow>bs. Nblobs b)) r)"
  using assms
proof (induction bs arbitrary: i k r)
  case Nil
  then show ?case by (simp add: proposed_positions_def)
next
  case (Cons b bs)
  let ?b = "disturb ops prm env i b"
  let ?v = "get_r_vectors ops ?b (location_new ?b) (orientation_new ?b)"
  let ?r1 = "take k r @ ?v @ drop (k + length ?v) r"
  let ?rest = "disturb_bodies ops prm env bs (i + 1)"
  have lv: "length ?v = Nblobs b"
    by (simp add: length_get_r_vectors Nblobs_disturb)
  have fit: "k + Nblobs b + (\<Sum>b\<leftarrow>bs. Nblobs b) \<le> length r"
    using Cons.prems by simp
  then have kv: "k + length ?v \<le> length r"
    using lv by simp
  have sl: "slice_assign r k ?v = Inr ?r1"
    by (rule slice_assign_in_range [OF kv])
  have len1: "length ?r1 = length r"
    using kv by simp
  have tk: "take (k + Nblobs b) ?r1 = take k r @ ?v"
    using kv lv by simp
  have dr: "drop (k + Nblobs b + n) ?r1 = drop (k + Nblobs b + n) r" for n
    using kv lv by (simp add: add.commute)
  have "k + Nblobs b + (\<Sum>b\<leftarrow>bs. Nblobs b) \<le> length ?r1"
    using fit len1 by simp
  from Cons.IH [OF this, of "i + 1"]
  have rec: "disturb_loop ops prm env bs (i + 1) (k + Nblobs b) ?r1
           = Inr (?rest, take k r @ ?v @ proposed_positions ops ?rest
                    @ drop (k + Nblobs b + (\<Sum>b\<leftarrow>bs. Nblobs b)) r)"
    by (simp only: tk dr append_assoc)
  have step: "disturb_loop ops prm env (b # bs) i k r
           = (case disturb_loop ops prm env bs (i + 1) (k + Nblobs b) ?r1 of
                Inl e \<Rightarrow> Inl e
              | Inr (bs', r') \<Rightarrow> Inr (?b # bs', r'))"
    by (simp only: disturb_loop.simps Let_def sl Nblobs_disturb sum.case)
  show ?case
    unfolding step rec by (simp add: proposed_positions_def add.assoc)
qed

lemma get_blobs_r_vectors_loop_result:
  assumes "k + (\<Sum>b\<leftarrow>bs. Nblobs b) \<le> length r"
  shows "get_blobs_r_vectors_loop ops bs k r
           = Inr (take k r @ current_positions ops bs @ drop (k + (\<Sum>b\<leftarrow>bs. Nblobs b)) r)"
  using assms
proof (induction bs arbitrary: k r)
  case Nil
  then show ?case by (simp add: current_positions_def)
next
  case (Cons b bs)
  let ?v = "get_r_vectors ops b (location b) (orientation b)"
  let ?r1 = "take k r @ ?v @ drop (k + length ?v) r"
  have lv: "length ?v = Nblobs b"
    by (rule length_get_r_vectors)
  have fit: "k + Nblobs b + (\<Sum>b\<leftarrow>bs. Nblobs b) \<le> length r"
    using Cons.prems by simp
  then have kv: "k + length ?v \<le> length r"
    using lv by simp
  have sl: "slice_assign r k ?v = Inr ?r1"
    by (rule slice_assign_in_range [OF kv])
  have len1: "length ?r1 = length r"
    using kv by simp
  have tk: "take (k + Nblobs b) ?r1 = take k r @ ?v"
    using kv lv by simp
  have dr: "drop (k + Nblobs b + n) ?r1 = drop (k + Nblobs b + n) r" for n
    using kv lv by (simp add: add.commute)
  have "k + Nblobs b + (\<Sum>b\<leftarrow>bs. Nblobs b) \<le> length ?r1"
    using fit len1 by simp
  from Cons.IH [OF this]
  have rec: "get_blobs_r_vectors_loop ops bs (k + Nblobs b) ?r1
           = Inr (take k r @ ?v @ current_positions ops bs
                    @ drop (k + Nblobs b + (\<Sum>b\<leftarrow>bs. Nblobs b)) r)"
    by (simp only: tk dr append_assoc)
  have step: "get_blobs_r_vectors_loop ops (b # bs) k r
           = get_blobs_r_vectors_loop ops bs (k + Nblobs b) ?r1"
    by (simp only: get_blobs_r_vectors_loop.simps Let_def sl sum.case)
  show ?case
    unfolding step rec by (simp add: current_positions_def add.assoc)
qed

lemma get_blobs_r_vectors_result:
  assumes "length r = (\<Sum>b\<leftarrow>bs. Nblobs b)"
  shows "get_blobs_r_vectors ops bs r = Inr (current_positions ops bs)"
  using get_blobs_r_vectors_loop_result [of 0 bs r ops] assms
  by (simp add: get_blobs_r_vectors_def)

lemma disturb_loop_bodies:
  "disturb_loop ops prm env bs i k r = Inr (bs', r') \<Longrightarrow> bs' = disturb_bodies ops prm env bs i"
proof (induction bs arbitrary: i k r bs' r')
  case Nil
  then show ?case by simp
next
  case (Cons b bs)
  from Cons.prems show ?case
    by (auto simp: Let_def split: sum.splits prod.splits dest: Cons.IH)
qed

lemma mcmc_step_cases:
  assumes "mcmc_step ops prm env s = Inr s'"
  obtains r where
    "disturb_loop ops prm env (bodies s) 0 0 (sample_r_vectors s)
       = Inr (disturb_bodies ops prm env (bodies s) 0, r)"
    and "sample_r_vectors s' = r"
    and "sample_state_energy s'
          = compute_total_energy (disturb_bodies ops prm env (bodies s) 0) r
              (potential_kwargs prm) (u_gpu env)"
    and "accept (uniform_accept env) (sample_state_energy s') (current_state_energy s) (kT prm)
          \<Longrightarrow> s' = s\<lparr>bodies := map commit (disturb_bodies ops prm env (bodies s) 0),
                     sample_r_vectors := r,
                     sample_state_energy := sample_state_energy s',
                     current_state_energy := sample_state_energy s',
                     accepted_moves := accepted_moves s + 1\<rparr>"
    and "\<not> accept (uniform_accept env) (sample_state_energy s') (current_state_energy s) (kT prm)
          \<Longrightarrow> s' = s\<lparr>bodies := disturb_bodies ops prm env (bodies s) 0,
                     sample_r_vectors := r,
                     sample_state_energy := sample_state_energy s'\<rparr>"
proof -
  from assms obtain bs r where
    loop: "disturb_loop ops prm env (bodies s) 0 0 (sample_r_vectors s) = Inr (bs, r)"
    by (auto simp: mcmc_step_def split: sum.splits)
  have bs: "bs = disturb_bodies ops prm env (bodies s) 0"
    using loop by (rule disturb_loop_bodies)
  let ?e = "compute_total_energy bs r (potential_kwargs prm) (u_gpu env)"
  show thesis
  proof (cases "accept (uniform_accept env) ?e (current_state_energy s) (kT prm)")
    case True
    with assms loop have s': "s' = s\<lparr>bodies := map commit bs, sample_r_vectors := r,
                     sample_state_energy := ?e, current_state_energy := ?e,
                     accepted_moves := accepted_moves s + 1\<rparr>"
      by (auto simp: mcmc_step_def Let_def)
    show ?thesis
      by (rule that [of r]) (use loop True in \<open>simp_all add: s' bs\<close>)
  next
    case False
    with assms loop have s': "s' = s\<lparr>bodies := bs, sample_r_vectors := r,
                     sample_state_energy := ?e\<rparr>"
      by (auto simp: mcmc_step_def Let_def)
    show ?thesis
      by (rule that [of r]) (use loop False in \<open>simp_all add: s' bs\<close>)
  qed
qed

lemma map_commit:
  "map location (map commit bs) = map location_new bs"
  "map orientation (map commit bs) = map orientation_new bs"
  "map location_new (map commit bs) = map location_new bs"
  "map orientation_new (map commit bs) = map orientation_new bs"
  by (simp_all add: commit_def)

subsection \<open>The concrete step\<close>

lemma example_disturb:
  "disturb quaternion_ops example_params example_env 0 example_body
     = example_body\<lparr>location_new := (Fin 0, Fin 0, Fin (7 / 10)),
                    orientation_new := (Fin (cos (1 / 2)), Fin (sin (1 / 2)), Fin 0, Fin 0)\<rparr>"
  by (simp add: disturb_def quaternion_ops_def example_params_def example_env_def
      example_body_def random_uniform_def vec_add_def vec_scale_def
      quaternion_from_rotation_def quaternion_product_def Let_def minus_double_def)

lemma rotation_entry: "2 * (sin t * sin t + (cos t * cos t - 1 / 2)) = (1::real)"
proof -
  have "sin t * sin t + cos t * cos t = 1"
    using sin_cos_squared_add [of t] by (simp add: power2_eq_square)
  then show ?thesis by simp
qed

lemma example_positions:
  "get_r_vectors quaternion_ops example_body (Fin 0, Fin 0, Fin (7 / 10))
       (Fin (cos (1 / 2)), Fin (sin (1 / 2)), Fin 0, Fin 0)
     = [(Fin 0, Fin 0, Fin (7 / 10)), (Fin 1, Fin 0, Fin (7 / 10))]"
  using rotation_entry [of "1 / 2"]
  by (simp add: get_r_vectors_def quaternion_ops_def example_body_def quaternion_rotate_def
      vec_add_def Let_def minus_double_def)

lemma example_loop:
  "disturb_loop quaternion_ops example_params example_env (bodies example_state) 0 0
       (sample_r_vectors example_state)
     = Inr ([example_body\<lparr>location_new := (Fin 0, Fin 0, Fin (7 / 10)),
                    orientation_new := (Fin (cos (1 / 2)), Fin (sin (1 / 2)), Fin 0, Fin 0)\<rparr>],
            [(Fin 0, Fin 0, Fin (7 / 10)), (Fin 1, Fin 0, Fin (7 / 10))])"
proof -
  have fit: "0 + (\<Sum>b\<leftarrow>bodies example_state. Nblobs b) \<le> length (sample_r_vectors example_state)"
    by (simp add: example_state_def example_body_def Nblobs_def)
  have n: "(\<Sum>b\<leftarrow>bodies example_state. Nblobs b) = 2"
    and l: "length (sample_r_vectors example_state) = 2"
    by (simp_all add: example_state_def example_body_def Nblobs_def)
  have ref: "reference_configuration
        (example_body\<lparr>location_new := (Fin 0, Fin 0, Fin (7 / 10)),
                    orientation_new := (Fin (cos (1 / 2)), Fin (sin (1 / 2)), Fin 0, Fin 0)\<rparr>)
      = reference_configuration example_body"
    by simp
  have pos: "get_r_vectors quaternion_ops
        (example_body\<lparr>location_new := (Fin 0, Fin 0, Fin (7 / 10)),
                    orientation_new := (Fin (cos (1 / 2)), Fin (sin (1 / 2)), Fin 0, Fin 0)\<rparr>)
        (Fin 0, Fin 0, Fin (7 / 10)) (Fin (cos (1 / 2)), Fin (sin (1 / 2)), Fin 0, Fin 0)
      = [(Fin 0, Fin 0, Fin (7 / 10)), (Fin 1, Fin 0, Fin (7 / 10))]"
    using example_positions by (simp add: get_r_vectors_def)
  show ?thesis
    unfolding disturb_loop_result [OF fit] n l
    by (simp add: example_state_def example_disturb proposed_positions_def pos)
qed

lemma example_energy:
  "compute_total_energy bs [(Fin 0, Fin 0, Fin (7 / 10)), (Fin 1, Fin 0, Fin (7 / 10))]
       example_kwargs [NaN, NaN] = Fin 260000"
proof -
  have len: "length [NaN, NaN]
      = length [(Fin 0, Fin 0, Fin (7 / 10)), (Fin 1, Fin 0, Fin (7 / 10 :: real))]"
    by simp
  show ?thesis
    unfolding compute_total_energy_blobs blobs_potential_terms [OF len]
    by (simp add: upt_rec) (simp add: eval_terms)
qed

lemma exp_minus_one_le_half: "exp (- 1) \<le> (1::real) / 2"
proof -
  have "(2::real) \<le> exp 1"
    using exp_ge_add_one_self [of "1::real"] by simp
  then have "1 / exp 1 \<le> 1 / (2::real)"
    by (intro divide_left_mono) simp_all
  then show ?thesis
    by (simp add: exp_minus inverse_eq_divide)
qed

lemma d_exp_above:
  assumes "0 \<le> a" and "b < 1"
  shows "Fin b < d_exp (Fin a)"
proof -
  have "1 \<le> exp a"
    using assms(1) by simp
  with assms(2) have "b < exp a"
    by linarith
  with assms(1) show ?thesis
    by simp
qed

lemma d_exp_below:
  assumes "a \<le> - 1" and "1 / 2 \<le> b"
  shows "\<not> Fin b < d_exp (Fin a)"
proof -
  have "exp a \<le> exp (- 1 :: real)"
    using assms(1) by simp
  with exp_minus_one_le_half have "\<not> b < exp a"
    using assms(2) by linarith
  with assms show ?thesis
    by simp
qed

lemma example_reject:
  "\<not> accept (Fin (1 / 2)) (Fin 260000) (Fin (3 + 4 * exp (- (1 / 2)) + exp (- 1))) (Fin 1)"
proof -
  have "exp (- (1 / 2)) \<le> (1::real)" "exp (- 1) \<le> (1::real)"
    by simp_all
  then have "- (260000 - (3 + 4 * exp (- (1 / 2)) + exp (- 1))) \<le> (- 1 :: real)"
    by linarith
  then have "\<not> Fin (1 / 2)
      < d_exp (Fin (- (260000 - (3 + 4 * exp (- (1 / 2)) + exp (- 1 :: real)))))"
    by (rule d_exp_below) simp
  then show ?thesis
    by (simp add: accept_def minus_double_def del: d_exp.simps)
qed

lemma example_step:
  "mcmc_step quaternion_ops example_params example_env example_state = Inr rejected_state"
proof -
  have kw: "potential_kwargs example_params = example_kwargs" "u_gpu example_env = [NaN, NaN]"
    "uniform_accept example_env = Fin (1 / 2)" "kT example_params = Fin 1"
    "current_state_energy example_state = Fin (3 + 4 * exp (- (1 / 2)) + exp (- 1))"
    by (simp_all add: example_params_def example_env_def example_state_def)
  show ?thesis
    unfolding mcmc_step_def example_loop
    by (simp add: Let_def kw example_energy example_reject rejected_state_def)
qed

lemma rising_disturb:
  "disturb quaternion_ops example_params rising_env 0 example_body
     = example_body\<lparr>location_new := (Fin 0, Fin 0, Fin 2),
                    orientation_new := (Fin (cos (1 / 2)), Fin (sin (1 / 2)), Fin 0, Fin 0)\<rparr>"
  by (simp add: disturb_def quaternion_ops_def example_params_def example_env_def rising_env_def
      example_body_def random_uniform_def vec_add_def vec_scale_def
      quaternion_from_rotation_def quaternion_product_def Let_def minus_double_def)

lemma rising_positions:
  "get_r_vectors quaternion_ops
        (example_body\<lparr>location_new := (Fin 0, Fin 0, Fin 2),
                    orientation_new := (Fin (cos (1 / 2)), Fin (sin (1 / 2)), Fin 0, Fin 0)\<rparr>)
        (Fin 0, Fin 0, Fin 2) (Fin (cos (1 / 2)), Fin (sin (1 / 2)), Fin 0, Fin 0)
     = [(Fin 0, Fin 0, Fin 2), (Fin 1, Fin 0, Fin 2)]"
  using rotation_entry [of "1 / 2"]
  by (simp add: get_r_vectors_def quaternion_ops_def example_body_def quaternion_rotate_def
      vec_add_def Let_def minus_double_def)

lemma rising_loop:
  "disturb_loop quaternion_ops example_params rising_env (bodies example_state) 0 0
       (sample_r_vectors example_state)
     = Inr ([example_body\<lparr>location_new := (Fin 0, Fin 0, Fin 2),
                    orientation_new := (Fin (cos (1 / 2)), Fin (sin (1 / 2)), Fin 0, Fin 0)\<rparr>],
            [(Fin 0, Fin 0, Fin 2), (Fin 1, Fin 0, Fin 2)])"
proof -
  have fit: "0 + (\<Sum>b\<leftarrow>bodies example_state. Nblobs b) \<le> length (sample_r_vectors example_state)"
    by (simp add: example_state_def example_body_def Nblobs_def)
  have n: "(\<Sum>b\<leftarrow>bodies example_state. Nblobs b) = 2"
    and l: "length (sample_r_vectors example_state) = 2"
    by (simp_all add: example_state_def example_body_def Nblobs_def)
  show ?thesis
    unfolding disturb_loop_result [OF fit] n l
    by (simp add: example_state_def rising_disturb proposed_positions_def rising_positions)
qed

lemma rising_energy:
  "compute_total_energy bs [(Fin 0, Fin 0, Fin 2), (Fin 1, Fin 0, Fin 2)]
       example_kwargs [NaN, NaN] = Fin (4 + 3 * exp (- 1))"
proof -
  have len: "length [NaN, NaN]
      = length [(Fin 0, Fin 0, Fin 2), (Fin 1, Fin 0, Fin (2 :: real))]"
    by simp
  show ?thesis
    unfolding compute_total_energy_blobs blobs_potential_terms [OF len]
    by (simp add: upt_rec) (simp add: eval_terms)
qed

lemma accept_improving:
  assumes "0 < kt" and "e' \<le> e" and "Fin 0 \<le> u" and "u < Fin 1"
  shows "accept u e' e kt
     = (\<not> (e' = e \<and> \<not> is_finite e) \<and> \<not> (kt = PInf \<and> (\<not> is_finite e' \<or> \<not> is_finite e)))"
proof -
  from assms(3,4) obtain a where u: "u = Fin a" and a: "0 \<le> a" "a < 1"
    by (cases u) simp_all
  from assms(1) consider k where "kt = Fin k" "0 < k" | "kt = PInf"
    by (cases kt) (simp_all add: zero_double_def)
  then show ?thesis
  proof cases
    case 1
    show ?thesis
    proof (cases e')
      case (Fin c')
      show ?thesis
      proof (cases e)
        case (Fin c)
        with assms(2) \<open>e' = Fin c'\<close> have "c' \<le> c" by simp
        with 1 have "0 \<le> - (c' - c) / k" by simp
        then have "Fin a < d_exp (Fin (- (c' - c) / k))"
          using a(2) by (rule d_exp_above)
        then show ?thesis
          using 1 Fin \<open>e' = Fin c'\<close> u
          by (simp add: accept_def minus_double_def is_finite_def del: d_exp.simps)
      qed (use assms(2) 1 Fin u in \<open>simp_all add: accept_def minus_double_def is_finite_def\<close>)
    qed (use assms(2) 1 u in \<open>cases e; simp add: accept_def minus_double_def is_finite_def\<close>)+
  next
    case 2
    show ?thesis
      using assms(2) 2 u a
      by (cases e'; cases e; simp add: accept_def minus_double_def is_finite_def)
  qed
qed


lemma improving_accept:
  assumes "0 < k" and "c' \<le> c" and "0 \<le> a" and "a < 1"
  shows "accept (Fin a) (Fin c') (Fin c) (Fin k)"
  using accept_improving [of "Fin k" "Fin c'" "Fin c" "Fin a"] assms
  by (simp add: zero_double_def is_finite_def)

lemma rising_improves: "4 + 3 * exp (- 1) \<le> 3 + 4 * exp (- (1 / 2)) + exp (- 1 :: real)"
proof -
  define t :: real where "t = exp (- (1 / 2))"
  have sq: "exp (- 1 :: real) = t * t"
    unfolding t_def by (simp add: exp_add [symmetric])
  have lo: "1 / 2 \<le> t"
    unfolding t_def using exp_ge_add_one_self [of "- (1 / 2) :: real"] by simp
  have hi: "t \<le> 1"
    unfolding t_def by simp
  have "(t - 1 / 2) * (t - 1) \<le> 0"
    using lo hi by (intro mult_nonneg_nonpos) simp_all
  moreover have "(t - 1 / 2) * (t - 1) = t * t - 3 / 2 * t + 1 / 2"
    by (simp add: field_simps)
  ultimately have "t * t \<le> 3 / 2 * t - 1 / 2"
    by linarith
  then have "1 + 2 * (t * t) \<le> 4 * t"
    using lo by linarith
  then show ?thesis
    unfolding sq t_def [symmetric] by linarith
qed

lemma rising_step:
  "mcmc_step quaternion_ops example_params rising_env example_state = Inr accepted_state"
proof -
  have kw: "potential_kwargs example_params = example_kwargs" "u_gpu rising_env = [NaN, NaN]"
    "uniform_accept rising_env = Fin (1 / 2)" "kT example_params = Fin 1"
    "current_state_energy example_state = Fin (3 + 4 * exp (- (1 / 2)) + exp (- 1))"
    by (simp_all add: example_params_def example_env_def rising_env_def example_state_def)
  have acc: "accept (Fin (1 / 2)) (Fin (4 + 3 * exp (- 1)))
               (Fin (3 + 4 * exp (- (1 / 2)) + exp (- 1))) (Fin 1)"
    by (rule improving_accept [OF _ rising_improves]) simp_all
  show ?thesis
    unfolding mcmc_step_def rising_loop
    by (simp add: Let_def kw rising_energy acc accepted_state_def commit_def example_state_def)
qed

lemma nan_step:
  "mcmc_step quaternion_ops example_params example_env nan_state = Inr nan_rejected"
proof -
  have fit: "0 + (\<Sum>b\<leftarrow>bodies nan_state. Nblobs b) \<le> length (sample_r_vectors nan_state)"
    by (simp add: nan_state_def example_state_def example_body_def Nblobs_def)
  have n: "(\<Sum>b\<leftarrow>bodies nan_state. Nblobs b) = 2"
    and l: "length (sample_r_vectors nan_state) = 2"
    by (simp_all add: nan_state_def example_state_def example_body_def Nblobs_def)
  let ?b = "example_body\<lparr>location := (Fin 0, Fin 0, NaN),
                    location_new := (Fin 0, Fin 0, NaN),
                    orientation_new := (Fin (cos (1 / 2)), Fin (sin (1 / 2)), Fin 0, Fin 0)\<rparr>"
  have d: "disturb quaternion_ops example_params example_env 0
             (example_body\<lparr>location := (Fin 0, Fin 0, NaN)\<rparr>) = ?b"
    by (simp add: disturb_def quaternion_ops_def example_params_def example_env_def
      example_body_def random_uniform_def vec_add_def vec_scale_def
      quaternion_from_rotation_def quaternion_product_def Let_def minus_double_def)
  have pos: "get_r_vectors quaternion_ops ?b (Fin 0, Fin 0, NaN)
        (Fin (cos (1 / 2)), Fin (sin (1 / 2)), Fin 0, Fin 0)
      = [(Fin 0, Fin 0, NaN), (Fin 1, Fin 0, NaN)]"
    using rotation_entry [of "1 / 2"]
    by (simp add: get_r_vectors_def quaternion_ops_def example_body_def quaternion_rotate_def
      vec_add_def Let_def minus_double_def)
  have loop: "disturb_loop quaternion_ops example_params example_env (bodies nan_state) 0 0
       (sample_r_vectors nan_state) = Inr ([?b], [(Fin 0, Fin 0, NaN), (Fin 1, Fin 0, NaN)])"
    unfolding disturb_loop_result [OF fit] n l
    by (simp add: nan_state_def example_state_def d proposed_positions_def pos)
  have len: "length [NaN, NaN] = length [(Fin 0, Fin 0, NaN), (Fin 1, Fin 0, NaN)]"
    by simp
  have energy: "compute_total_energy bs [(Fin 0, Fin 0, NaN), (Fin 1, Fin 0, NaN)]
       example_kwargs [NaN, NaN] = NaN" for bs :: "body list"
    unfolding compute_total_energy_blobs blobs_potential_terms [OF len]
    by (simp add: upt_rec) (simp add: eval_terms)
  have kw: "potential_kwargs example_params = example_kwargs" "u_gpu example_env = [NaN, NaN]"
    "uniform_accept example_env = Fin (1 / 2)"
    by (simp_all add: example_params_def example_env_def)
  show ?thesis
    unfolding mcmc_step_def loop
    by (simp add: Let_def kw energy accept_def nan_rejected_def nan_state_def minus_double_def)
qed









subsection \<open>The step of the chain\<close>

lemma get_r_vectors_commit:
  "get_r_vectors ops (commit b) loc ori = get_r_vectors ops b loc ori"
  by (simp add: get_r_vectors_def commit_def)

lemma positions_commit:
  "proposed_positions ops (map commit bs) = proposed_positions ops bs"
  "current_positions ops (map commit bs) = proposed_positions ops bs"
  by (induction bs)
     (simp_all add: proposed_positions_def current_positions_def get_r_vectors_commit,
      simp_all add: commit_def)

lemma Nblobs_commit: "Nblobs (commit b) = Nblobs b"
  by (simp add: Nblobs_def commit_def)

lemma length_proposed_positions:
  "length (proposed_positions ops bs) = (\<Sum>b\<leftarrow>bs. Nblobs b)"
  by (induction bs) (simp_all add: proposed_positions_def length_get_r_vectors)

lemma sum_Nblobs_disturb:
  "(\<Sum>b\<leftarrow>disturb_bodies ops prm env bs i. Nblobs b) = (\<Sum>b\<leftarrow>bs. Nblobs b)"
  using disturb_bodies_frame(4) [of ops prm env bs i] by (rule arg_cong)

lemma sum_Nblobs_commit: "(\<Sum>b\<leftarrow>map commit bs. Nblobs b) = (\<Sum>b\<leftarrow>bs. Nblobs b)"
  by (induction bs) (simp_all add: Nblobs_commit)

lemma step_buffer:
  assumes fit: "buffer_fits s" and step: "mcmc_step ops prm env s = Inr s'"
  shows "sample_r_vectors s'
           = proposed_positions ops (disturb_bodies ops prm env (bodies s) 0)"
proof -
  from fit have le: "0 + (\<Sum>b\<leftarrow>bodies s. Nblobs b) \<le> length (sample_r_vectors s)"
    by (simp add: buffer_fits_def)
  from step obtain r where
    loop: "disturb_loop ops prm env (bodies s) 0 0 (sample_r_vectors s)
       = Inr (disturb_bodies ops prm env (bodies s) 0, r)"
    and r: "sample_r_vectors s' = r"
    by (rule mcmc_step_cases)
  from loop fit show ?thesis
    unfolding disturb_loop_result [OF le] r by (simp add: buffer_fits_def)
qed

lemma step_succeeds:
  assumes fit: "buffer_fits s"
  shows "\<exists>s'. mcmc_step ops prm env s = Inr s'"
proof -
  from fit have le: "0 + (\<Sum>b\<leftarrow>bodies s. Nblobs b) \<le> length (sample_r_vectors s)"
    by (simp add: buffer_fits_def)
  show ?thesis
    unfolding mcmc_step_def disturb_loop_result [OF le] by (simp add: Let_def)
qed

text \<open>
  C6. The loop that disturbs the bodies leaves the location and the orientation of
  every body as they were: it assigns \<open>location_new\<close> and \<open>orientation_new\<close> (and the
  buffer) only, and the energy evaluation returns a number. After a step, if the proposal
  was rejected, the location and the orientation of every body and the current energy are
  those from before the step; if it was accepted, they are the proposed pose and the
  energy of the sample state.
\<close>

theorem pose_changes_on_commit_only:
  "(disturb_loop ops prm env (bodies s) 0 0 (sample_r_vectors s) = Inr (bs, r) \<longrightarrow>
       map location bs = map location (bodies s)
     \<and> map orientation bs = map orientation (bodies s))
   \<and> (mcmc_step ops prm env s = Inr s' \<longrightarrow>
       (if accept (uniform_accept env) (sample_state_energy s') (current_state_energy s) (kT prm)
        then map location (bodies s') = map location_new (bodies s')
           \<and> map orientation (bodies s') = map orientation_new (bodies s')
           \<and> current_state_energy s' = sample_state_energy s'
        else map location (bodies s') = map location (bodies s)
           \<and> map orientation (bodies s') = map orientation (bodies s)
           \<and> current_state_energy s' = current_state_energy s))"
proof (intro conjI impI)
  assume "disturb_loop ops prm env (bodies s) 0 0 (sample_r_vectors s) = Inr (bs, r)"
  then have bs: "bs = disturb_bodies ops prm env (bodies s) 0"
    by (rule disturb_loop_bodies)
  show "map location bs = map location (bodies s)"
    and "map orientation bs = map orientation (bodies s)"
    unfolding bs by (rule disturb_bodies_frame)+
next
  assume step: "mcmc_step ops prm env s = Inr s'"
  let ?bs = "disturb_bodies ops prm env (bodies s) 0"
  let ?acc = "accept (uniform_accept env) (sample_state_energy s') (current_state_energy s)
                (kT prm)"
  from step obtain r where
    yes: "?acc \<Longrightarrow> s' = s\<lparr>bodies := map commit ?bs, sample_r_vectors := r,
                     sample_state_energy := sample_state_energy s',
                     current_state_energy := sample_state_energy s',
                     accepted_moves := accepted_moves s + 1\<rparr>"
    and no: "\<not> ?acc \<Longrightarrow> s' = s\<lparr>bodies := ?bs, sample_r_vectors := r,
                     sample_state_energy := sample_state_energy s'\<rparr>"
    by (rule mcmc_step_cases) blast
  show "if ?acc
        then map location (bodies s') = map location_new (bodies s')
           \<and> map orientation (bodies s') = map orientation_new (bodies s')
           \<and> current_state_energy s' = sample_state_energy s'
        else map location (bodies s') = map location (bodies s)
           \<and> map orientation (bodies s') = map orientation (bodies s)
           \<and> current_state_energy s' = current_state_energy s"
  proof (cases ?acc)
    case True
    have "bodies s' = map commit ?bs" "current_state_energy s' = sample_state_energy s'"
      by (subst yes [OF True], simp)+
    with True show ?thesis
      by (simp add: commit_def)
  next
    case False
    have "bodies s' = ?bs" "current_state_energy s' = current_state_energy s"
      by (subst no [OF False], simp)+
    with False show ?thesis
      by (simp add: disturb_bodies_frame)
  qed
qed

theorem pose_changes_on_commit_only_witness:
  "disturb_loop quaternion_ops example_params example_env (bodies example_state) 0 0
       (sample_r_vectors example_state)
     = Inr (bodies rejected_state, sample_r_vectors rejected_state)
   \<and> mcmc_step quaternion_ops example_params example_env example_state = Inr rejected_state
   \<and> \<not> accept (uniform_accept example_env) (sample_state_energy rejected_state)
          (current_state_energy example_state) (kT example_params)
   \<and> map location (bodies rejected_state) = [(Fin 0, Fin 0, Fin 1.5)]
   \<and> map location (bodies rejected_state) = map location (bodies example_state)
   \<and> map orientation (bodies rejected_state) = map orientation (bodies example_state)
   \<and> current_state_energy rejected_state = current_state_energy example_state
   \<and> mcmc_step quaternion_ops example_params rising_env example_state = Inr accepted_state
   \<and> map location (bodies accepted_state) = [(Fin 0, Fin 0, Fin 2)]
   \<and> map location (bodies accepted_state) = map location_new (bodies accepted_state)
   \<and> current_state_energy accepted_state = sample_state_energy accepted_state"
proof -
  have loop: "disturb_loop quaternion_ops example_params example_env (bodies example_state) 0 0
       (sample_r_vectors example_state)
     = Inr (bodies rejected_state, sample_r_vectors rejected_state)"
    unfolding example_loop by (simp add: rejected_state_def)
  have rej: "\<not> accept (uniform_accept example_env) (sample_state_energy rejected_state)
          (current_state_energy example_state) (kT example_params)"
    using example_reject
    by (simp add: example_env_def rejected_state_def example_state_def example_params_def)
  from pose_changes_on_commit_only [of quaternion_ops example_params example_env example_state
      "bodies rejected_state" "sample_r_vectors rejected_state" rejected_state]
    loop example_step rej
  have one: "map location (bodies rejected_state) = map location (bodies example_state)
     \<and> map orientation (bodies rejected_state) = map orientation (bodies example_state)
     \<and> current_state_energy rejected_state = current_state_energy example_state"
    by simp
  have two: "map location (bodies rejected_state) = [(Fin 0, Fin 0, Fin 1.5)]"
    "map location (bodies accepted_state) = [(Fin 0, Fin 0, Fin 2)]"
    "map location (bodies accepted_state) = map location_new (bodies accepted_state)"
    "current_state_energy accepted_state = sample_state_energy accepted_state"
    by (simp_all add: rejected_state_def accepted_state_def example_state_def example_body_def)
  from loop example_step rej one two rising_step show ?thesis
    by simp
qed

text \<open>
  C7, as amended. In a state whose buffer has one row for every blob, at the end of every
  step, accepted or rejected, the buffer holds the blob positions of the proposed pose
  (\<open>location_new\<close>, \<open>orientation_new\<close>) of every body. After an accepted step these are
  the positions of the current pose as well, the ones that \<^verbatim>\<open>get_blobs_r_vectors\<close>
  computes.
\<close>

theorem buffer_holds_proposed_pose:
  assumes fit: "buffer_fits s" and step: "mcmc_step ops prm env s = Inr s'"
  shows "sample_r_vectors s' = proposed_positions ops (bodies s')
       \<and> buffer_fits s'
       \<and> (accept (uniform_accept env) (sample_state_energy s') (current_state_energy s) (kT prm)
            \<longrightarrow> sample_r_vectors s' = current_positions ops (bodies s')
              \<and> get_blobs_r_vectors ops (bodies s') (sample_r_vectors s)
                    = Inr (sample_r_vectors s'))"
proof -
  let ?bs = "disturb_bodies ops prm env (bodies s) 0"
  let ?acc = "accept (uniform_accept env) (sample_state_energy s') (current_state_energy s)
                (kT prm)"
  have buf: "sample_r_vectors s' = proposed_positions ops ?bs"
    using fit step by (rule step_buffer)
  from step obtain r where
    yes: "?acc \<Longrightarrow> s' = s\<lparr>bodies := map commit ?bs, sample_r_vectors := r,
                     sample_state_energy := sample_state_energy s',
                     current_state_energy := sample_state_energy s',
                     accepted_moves := accepted_moves s + 1\<rparr>"
    and no: "\<not> ?acc \<Longrightarrow> s' = s\<lparr>bodies := ?bs, sample_r_vectors := r,
                     sample_state_energy := sample_state_energy s'\<rparr>"
    by (rule mcmc_step_cases) blast
  have bodies: "bodies s' = (if ?acc then map commit ?bs else ?bs)"
  proof (cases ?acc)
    case True
    have "bodies s' = map commit ?bs" by (subst yes [OF True]) simp
    with True show ?thesis by simp
  next
    case False
    have "bodies s' = ?bs" by (subst no [OF False]) simp
    with False show ?thesis by simp
  qed
  have pp: "sample_r_vectors s' = proposed_positions ops (bodies s')"
    unfolding buf bodies by (simp add: positions_commit)
  have count: "(\<Sum>b\<leftarrow>bodies s'. Nblobs b) = (\<Sum>b\<leftarrow>bodies s. Nblobs b)"
    unfolding bodies
    using sum_Nblobs_commit [of ?bs] sum_Nblobs_disturb [of ops prm env "bodies s" 0]
    by (simp del: map_map)
  have fit': "buffer_fits s'"
    unfolding buffer_fits_def pp by (rule length_proposed_positions)
  have cur: "?acc \<longrightarrow> sample_r_vectors s' = current_positions ops (bodies s')
              \<and> get_blobs_r_vectors ops (bodies s') (sample_r_vectors s)
                    = Inr (sample_r_vectors s')"
  proof
    assume a: ?acc
    have c: "sample_r_vectors s' = current_positions ops (bodies s')"
      unfolding buf bodies using a by (simp add: positions_commit)
    have "length (sample_r_vectors s) = (\<Sum>b\<leftarrow>bodies s'. Nblobs b)"
      using fit by (simp add: count buffer_fits_def)
    from get_blobs_r_vectors_result [OF this, of ops] c
    show "sample_r_vectors s' = current_positions ops (bodies s')
              \<and> get_blobs_r_vectors ops (bodies s') (sample_r_vectors s)
                    = Inr (sample_r_vectors s')"
      by simp
  qed
  from pp fit' cur show ?thesis by blast
qed

lemma example_fits: "buffer_fits example_state" "buffer_fits nan_state"
  by (simp_all add: buffer_fits_def example_state_def nan_state_def example_body_def Nblobs_def)

lemma rising_accept:
  "accept (uniform_accept rising_env) (sample_state_energy accepted_state)
     (current_state_energy example_state) (kT example_params)"
proof -
  have "accept (Fin (1 / 2)) (Fin (4 + 3 * exp (- 1)))
               (Fin (3 + 4 * exp (- (1 / 2)) + exp (- 1))) (Fin 1)"
    by (rule improving_accept [OF _ rising_improves]) simp_all
  then show ?thesis
    by (simp add: rising_env_def example_env_def accepted_state_def example_state_def
        example_params_def)
qed

theorem buffer_holds_proposed_pose_witness:
  "buffer_fits example_state
   \<and> mcmc_step quaternion_ops example_params rising_env example_state = Inr accepted_state
   \<and> accept (uniform_accept rising_env) (sample_state_energy accepted_state)
        (current_state_energy example_state) (kT example_params)
   \<and> sample_r_vectors accepted_state = [(Fin 0, Fin 0, Fin 2), (Fin 1, Fin 0, Fin 2)]
   \<and> sample_r_vectors accepted_state = proposed_positions quaternion_ops (bodies accepted_state)
   \<and> sample_r_vectors accepted_state = current_positions quaternion_ops (bodies accepted_state)
   \<and> get_blobs_r_vectors quaternion_ops (bodies accepted_state) (sample_r_vectors example_state)
        = Inr (sample_r_vectors accepted_state)"
proof -
  have buf: "sample_r_vectors accepted_state = [(Fin 0, Fin 0, Fin 2), (Fin 1, Fin 0, Fin 2)]"
    by (simp add: accepted_state_def)
  from buffer_holds_proposed_pose [OF example_fits(1) rising_step] rising_accept
  have "sample_r_vectors accepted_state = proposed_positions quaternion_ops (bodies accepted_state)
   \<and> sample_r_vectors accepted_state = current_positions quaternion_ops (bodies accepted_state)
   \<and> get_blobs_r_vectors quaternion_ops (bodies accepted_state) (sample_r_vectors example_state)
        = Inr (sample_r_vectors accepted_state)"
    by blast
  with example_fits(1) rising_step rising_accept buf show ?thesis
    by blast
qed

text \<open>
  After the rejected step of \<open>example_state\<close> the buffer holds the rejected positions, at
  height 0.7, while the bodies are still at height 1.5.
\<close>

theorem buffer_holds_proposed_pose_counterexample:
  "mcmc_step quaternion_ops example_params example_env example_state = Inr rejected_state
   \<and> sample_r_vectors rejected_state = [(Fin 0, Fin 0, Fin (7 / 10)), (Fin 1, Fin 0, Fin (7 / 10))]
   \<and> get_blobs_r_vectors quaternion_ops (bodies rejected_state) (sample_r_vectors rejected_state)
        = Inr [(Fin 0, Fin 0, Fin (3 / 2)), (Fin 1, Fin 0, Fin (3 / 2))]
   \<and> current_positions quaternion_ops (bodies rejected_state)
        = [(Fin 0, Fin 0, Fin (3 / 2)), (Fin 1, Fin 0, Fin (3 / 2))]
   \<and> sample_r_vectors rejected_state \<noteq> current_positions quaternion_ops (bodies rejected_state)"
proof -
  have cur: "current_positions quaternion_ops (bodies rejected_state)
        = [(Fin 0, Fin 0, Fin (3 / 2)), (Fin 1, Fin 0, Fin (3 / 2))]"
    by (simp add: current_positions_def rejected_state_def example_state_def example_body_def
        get_r_vectors_def quaternion_ops_def quaternion_rotate_def vec_add_def Let_def
        minus_double_def)
  have len: "length (sample_r_vectors rejected_state) = (\<Sum>b\<leftarrow>bodies rejected_state. Nblobs b)"
    by (simp add: rejected_state_def example_state_def example_body_def Nblobs_def)
  have buf: "sample_r_vectors rejected_state
       = [(Fin 0, Fin 0, Fin (7 / 10)), (Fin 1, Fin 0, Fin (7 / 10))]"
    by (simp add: rejected_state_def)
  from example_step get_blobs_r_vectors_result [OF len, of quaternion_ops] cur buf
  show ?thesis by simp
qed

text \<open>
  C8, as amended. The sampler does not inspect the proposed pose. In a state whose
  buffer has one row for every blob, every step runs to its end without an error,
  whatever the components of the poses are, NaN and the infinities included; the buffer
  of the positions of the proposed pose is handed to the energy evaluator, and its result
  is the energy of the sample state.
\<close>

theorem proposal_not_validated:
  assumes fit: "buffer_fits s"
  shows "\<exists>s'. mcmc_step ops prm env s = Inr s'
           \<and> sample_r_vectors s'
               = proposed_positions ops (disturb_bodies ops prm env (bodies s) 0)
           \<and> sample_state_energy s'
               = compute_total_energy (disturb_bodies ops prm env (bodies s) 0)
                   (sample_r_vectors s') (potential_kwargs prm) (u_gpu env)"
proof -
  from step_succeeds [OF fit] obtain s' where step: "mcmc_step ops prm env s = Inr s'"
    by blast
  from step obtain r where r: "sample_r_vectors s' = r"
    and e: "sample_state_energy s'
          = compute_total_energy (disturb_bodies ops prm env (bodies s) 0) r
              (potential_kwargs prm) (u_gpu env)"
    by (rule mcmc_step_cases) blast
  from step step_buffer [OF fit step] e show ?thesis
    unfolding r [symmetric] by blast
qed

theorem proposal_not_validated_witness:
  "buffer_fits nan_state
   \<and> location_new (disturb quaternion_ops example_params example_env 0 (hd (bodies nan_state)))
       = (Fin 0, Fin 0, NaN)
   \<and> (\<exists>s'. mcmc_step quaternion_ops example_params example_env nan_state = Inr s'
           \<and> sample_r_vectors s'
               = proposed_positions quaternion_ops
                   (disturb_bodies quaternion_ops example_params example_env (bodies nan_state) 0)
           \<and> sample_state_energy s'
               = compute_total_energy
                   (disturb_bodies quaternion_ops example_params example_env (bodies nan_state) 0)
                   (sample_r_vectors s') (potential_kwargs example_params) (u_gpu example_env))"
proof -
  have "location_new (disturb quaternion_ops example_params example_env 0 (hd (bodies nan_state)))
       = (Fin 0, Fin 0, NaN)"
    by (simp add: nan_state_def example_state_def disturb_def example_params_def example_env_def
        example_body_def random_uniform_def vec_add_def Let_def minus_double_def)
  with example_fits(2)
    proposal_not_validated [OF example_fits(2), of quaternion_ops example_params example_env]
  show ?thesis by blast
qed

text \<open>
  A body whose height is NaN: the step ends without an error, the buffer given to the
  evaluator has NaN heights, and the energy of the sample state is NaN.
\<close>

theorem proposal_not_validated_counterexample:
  "location_new (disturb quaternion_ops example_params example_env 0 (hd (bodies nan_state)))
       = (Fin 0, Fin 0, NaN)
   \<and> mcmc_step quaternion_ops example_params example_env nan_state = Inr nan_rejected
   \<and> sample_r_vectors nan_rejected = [(Fin 0, Fin 0, NaN), (Fin 1, Fin 0, NaN)]
   \<and> compute_total_energy (bodies nan_rejected) (sample_r_vectors nan_rejected)
        (potential_kwargs example_params) (u_gpu example_env) = NaN
   \<and> sample_state_energy nan_rejected = NaN"
proof -
  have loc: "location_new (disturb quaternion_ops example_params example_env 0
                 (hd (bodies nan_state))) = (Fin 0, Fin 0, NaN)"
    by (simp add: nan_state_def example_state_def disturb_def example_params_def example_env_def
        example_body_def random_uniform_def vec_add_def Let_def minus_double_def)
  have buf: "sample_r_vectors nan_rejected = [(Fin 0, Fin 0, NaN), (Fin 1, Fin 0, NaN)]"
    and e: "sample_state_energy nan_rejected = NaN"
    by (simp_all add: nan_rejected_def)
  have len: "length [NaN, NaN] = length [(Fin 0, Fin 0, NaN), (Fin 1, Fin 0, NaN)]"
    by simp
  have "compute_total_energy (bodies nan_rejected) [(Fin 0, Fin 0, NaN), (Fin 1, Fin 0, NaN)]
       example_kwargs [NaN, NaN] = NaN"
    unfolding compute_total_energy_blobs blobs_potential_terms [OF len]
    by (simp add: upt_rec) (simp add: eval_terms)
  then have en: "compute_total_energy (bodies nan_rejected) (sample_r_vectors nan_rejected)
        (potential_kwargs example_params) (u_gpu example_env) = NaN"
    by (simp add: buf example_params_def example_env_def)
  from loc nan_step buf en e show ?thesis by blast
qed




end
